theory Spec2Isabelle
  imports Complex_Main "HOL-Library.Word"
begin

section \<open>Errors and platform description\<close>

text \<open>
  Every exception the modelled code can raise is a value of \<open>error\<close>; a function that
  can raise returns \<open>error + 'a\<close> with \<open>Inl\<close> for the exception.
  \<^item> \<open>ValueError\<close>: \<^verbatim>\<open>math.log2\<close> on a non-positive integer ("math domain error"),
    a negative shift count;
  \<^item> \<open>TypeError msg\<close>: raised by \<^verbatim>\<open>ArrayField.compute_size\<close> with \<^verbatim>\<open>UNSIZED_ARRAY\<close>;
  \<^item> \<open>KeyError\<close>: a dictionary subscript with a missing key;
  \<^item> \<open>NameError\<close>: evaluation of a name that is bound nowhere;
  \<^item> \<open>UnicodeEncodeError\<close>, \<open>UnicodeDecodeError\<close>: \<^verbatim>\<open>str.encode\<close>, \<^verbatim>\<open>bytes.decode\<close>;
  \<^item> \<open>StructError\<close>: a typed write of a value outside the range of its type;
  \<^item> \<open>MemoryAccessError\<close>: the memory port fails a call (here: \<^verbatim>\<open>allocate\<close> has no
    room for the block in the target address space).
\<close>

datatype error =
  ValueError | TypeError string | KeyError | NameError
  | UnicodeEncodeError | UnicodeDecodeError | StructError | MemoryAccessError

text \<open>
  Modelled from the spec: \<^verbatim>\<open>gd.platform\<close> (\<^verbatim>\<open>Platform\<close>, \<^verbatim>\<open>PlatformConfig\<close>) is not among the
  sources. The configuration carries the bit width and the OS family, the two
  attributes \<^verbatim>\<open>fields.py\<close> reads (\<^verbatim>\<open>config.bits\<close>, \<^verbatim>\<open>config.platform.is_windows()\<close>).
  \<^verbatim>\<open>bits\<close> is a Python integer, so nothing in the type restricts it to 8, 16, 32, 64.
\<close>

datatype Platform = UNKNOWN | ANDROID | DARWIN | LINUX | WINDOWS

definition is_windows :: "Platform \<Rightarrow> bool" where
  "is_windows p = (p = WINDOWS)"

record PlatformConfig =
  bits :: int
  platform :: Platform

text \<open>
  Modelled from the spec: \<^verbatim>\<open>gd.binary_constants\<close> is not among the sources; the
  width-specific sizes are 1, 2, 4 and 8 bytes (\<^verbatim>\<open>I32\<close> is 4 always, single and double
  precision are 4 and 8).
\<close>

definition I8_SIZE :: int where "I8_SIZE = 1"
definition U8_SIZE :: int where "U8_SIZE = 1"
definition I16_SIZE :: int where "I16_SIZE = 2"
definition U16_SIZE :: int where "U16_SIZE = 2"
definition I32_SIZE :: int where "I32_SIZE = 4"
definition U32_SIZE :: int where "U32_SIZE = 4"
definition I64_SIZE :: int where "I64_SIZE = 8"
definition U64_SIZE :: int where "U64_SIZE = 8"
definition F32_SIZE :: int where "F32_SIZE = 4"
definition F64_SIZE :: int where "F64_SIZE = 8"

section \<open>Field descriptors (\<^verbatim>\<open>gd/memory/fields.py\<close>)\<close>

text \<open>
  The scalar subclasses of \<^verbatim>\<open>Field\<close>, one constructor per class (\<^verbatim>\<open>Int\<close> is written
  \<open>Int'\<close>). A field carries its \<^verbatim>\<open>offset\<close>; an \<^verbatim>\<open>ArrayField\<close> carries the element field
  \<^verbatim>\<open>type\<close>, the optional \<^verbatim>\<open>length\<close> and the offset.
\<close>

datatype scalar =
  I8 | U8 | I16 | U16 | I32 | U32 | I64 | U64 | ISize | USize | F32 | F64
  | Byte | UByte | Short | UShort | Int' | UInt | Long | ULong | LongLong | ULongLong
  | Size | Float | Double

datatype Field =
  Scalar scalar int
  | ArrayField Field "int option" int

text \<open>A dictionary subscript \<^verbatim>\<open>d[k]\<close>: \<^verbatim>\<open>KeyError\<close> when the key is missing.\<close>

definition subscript :: "(int \<rightharpoonup> int) \<Rightarrow> int \<Rightarrow> error + int" where
  "subscript d k = (case d k of None \<Rightarrow> Inl KeyError | Some v \<Rightarrow> Inr v)"

text \<open>
  \<^verbatim>\<open>compute_size\<close> and \<^verbatim>\<open>compute_alignment\<close> of the scalar classes, each transcribed
  from its own method body.
\<close>

fun scalar_compute_size :: "scalar \<Rightarrow> PlatformConfig \<Rightarrow> error + int" where
  "scalar_compute_size I8 config = Inr I8_SIZE"
| "scalar_compute_size U8 config = Inr U8_SIZE"
| "scalar_compute_size I16 config = Inr I16_SIZE"
| "scalar_compute_size U16 config = Inr U16_SIZE"
| "scalar_compute_size I32 config = Inr I32_SIZE"
| "scalar_compute_size U32 config = Inr U32_SIZE"
| "scalar_compute_size I64 config = Inr I64_SIZE"
| "scalar_compute_size U64 config = Inr U64_SIZE"
| "scalar_compute_size ISize config =
     subscript (map_of [(8, I8_SIZE), (16, I16_SIZE), (32, I32_SIZE), (64, I64_SIZE)]) (bits config)"
| "scalar_compute_size USize config =
     subscript (map_of [(8, U8_SIZE), (16, U16_SIZE), (32, U32_SIZE), (64, U64_SIZE)]) (bits config)"
| "scalar_compute_size F32 config = Inr F32_SIZE"
| "scalar_compute_size F64 config = Inr F64_SIZE"
| "scalar_compute_size Byte config = Inr I8_SIZE"
| "scalar_compute_size UByte config = Inr U8_SIZE"
| "scalar_compute_size Short config = Inr I16_SIZE"
| "scalar_compute_size UShort config = Inr U16_SIZE"
| "scalar_compute_size Int' config = (if bits config < 32 then Inr I16_SIZE else Inr I32_SIZE)"
| "scalar_compute_size UInt config = (if bits config < 32 then Inr U16_SIZE else Inr U32_SIZE)"
| "scalar_compute_size Long config =
     (if bits config > 32 \<and> \<not> is_windows (platform config) then Inr I64_SIZE else Inr I32_SIZE)"
| "scalar_compute_size ULong config =
     (if bits config > 32 \<and> \<not> is_windows (platform config) then Inr U64_SIZE else Inr U32_SIZE)"
| "scalar_compute_size LongLong config = Inr I64_SIZE"
| "scalar_compute_size ULongLong config = Inr U64_SIZE"
| "scalar_compute_size Size config =
     subscript (map_of [(8, I8_SIZE), (16, I16_SIZE), (32, I32_SIZE), (64, I64_SIZE)]) (bits config)"
| "scalar_compute_size Float config = Inr F32_SIZE"
| "scalar_compute_size Double config = Inr F64_SIZE"

fun scalar_compute_alignment :: "scalar \<Rightarrow> PlatformConfig \<Rightarrow> error + int" where
  "scalar_compute_alignment I8 config = Inr I8_SIZE"
| "scalar_compute_alignment U8 config = Inr U8_SIZE"
| "scalar_compute_alignment I16 config = Inr I16_SIZE"
| "scalar_compute_alignment U16 config = Inr U16_SIZE"
| "scalar_compute_alignment I32 config = Inr I32_SIZE"
| "scalar_compute_alignment U32 config = Inr U32_SIZE"
| "scalar_compute_alignment I64 config = Inr I64_SIZE"
| "scalar_compute_alignment U64 config = Inr U64_SIZE"
| "scalar_compute_alignment ISize config =
     subscript (map_of [(8, I8_SIZE), (16, I16_SIZE), (32, I32_SIZE), (64, I64_SIZE)]) (bits config)"
| "scalar_compute_alignment USize config =
     subscript (map_of [(8, U8_SIZE), (16, U16_SIZE), (32, U32_SIZE), (64, U64_SIZE)]) (bits config)"
| "scalar_compute_alignment F32 config = Inr F32_SIZE"
| "scalar_compute_alignment F64 config = Inr F64_SIZE"
| "scalar_compute_alignment Byte config = Inr I8_SIZE"
| "scalar_compute_alignment UByte config = Inr U8_SIZE"
| "scalar_compute_alignment Short config = Inr I16_SIZE"
| "scalar_compute_alignment UShort config = Inr U16_SIZE"
| "scalar_compute_alignment Int' config = (if bits config < 32 then Inr I16_SIZE else Inr I32_SIZE)"
| "scalar_compute_alignment UInt config = (if bits config < 32 then Inr U16_SIZE else Inr U32_SIZE)"
| "scalar_compute_alignment Long config =
     (if bits config > 32 \<and> \<not> is_windows (platform config) then Inr I64_SIZE else Inr I32_SIZE)"
| "scalar_compute_alignment ULong config =
     (if bits config > 32 \<and> \<not> is_windows (platform config) then Inr U64_SIZE else Inr U32_SIZE)"
| "scalar_compute_alignment LongLong config = Inr I64_SIZE"
| "scalar_compute_alignment ULongLong config = Inr U64_SIZE"
| "scalar_compute_alignment Size config =
     subscript (map_of [(8, I8_SIZE), (16, I16_SIZE), (32, I32_SIZE), (64, I64_SIZE)]) (bits config)"
| "scalar_compute_alignment Float config = Inr F32_SIZE"
| "scalar_compute_alignment Double config = Inr F64_SIZE"

definition UNSIZED_ARRAY :: string where
  "UNSIZED_ARRAY = ''array is unsized''"

text \<open>
  \<^verbatim>\<open>ArrayField.compute_size\<close> tests the length first and raises before the element
  field is asked for its size; \<^verbatim>\<open>compute_alignment\<close> is the element's alignment.
  Neither takes a state: the only argument besides the field is the configuration.
\<close>

fun compute_size :: "Field \<Rightarrow> PlatformConfig \<Rightarrow> error + int" where
  "compute_size (Scalar k off) config = scalar_compute_size k config"
| "compute_size (ArrayField t len off) config =
     (case len of
        None \<Rightarrow> Inl (TypeError UNSIZED_ARRAY)
      | Some n \<Rightarrow>
          (case compute_size t config of
             Inl e \<Rightarrow> Inl e
           | Inr s \<Rightarrow> Inr (s * n)))"

fun compute_alignment :: "Field \<Rightarrow> PlatformConfig \<Rightarrow> error + int" where
  "compute_alignment (Scalar k off) config = scalar_compute_alignment k config"
| "compute_alignment (ArrayField t len off) config = compute_alignment t config"

section \<open>Power-of-two sizing (\<^verbatim>\<open>gd/memory/utils.py\<close>)\<close>

text \<open>
  \<^verbatim>\<open>closest_power_of_two_bits(value)\<close> is \<^verbatim>\<open>ceil(log2(value))\<close> with \<^verbatim>\<open>math.log2\<close> and
  \<^verbatim>\<open>math.ceil\<close>. \<^verbatim>\<open>math.log2\<close> raises \<^verbatim>\<open>ValueError\<close> on an integer that is not
  positive. Otherwise it works in double precision (53-bit significand, round to
  nearest, ties to even), and both of its roundings are modelled.

  \<^item> The integer is converted to a double. The double nearest to a positive integer
    is itself an integer, so \<open>float_of_int\<close> represents it by its value. An integer
    past the range of a double is split into a 53-bit mantissa, rounded the same
    way, and an exponent, so \<open>float_of_int\<close> is the value \<^verbatim>\<open>math.log2\<close> works on at
    every size.
  \<^item> The logarithm of that double is rounded to a double in its turn. Write the
    double as \<open>2 ^ k * (1 + m / 2 ^ 52)\<close> with \<open>0 \<le> m < 2 ^ 52\<close> (\<open>exponent\<close> and
    \<open>fraction\<close>). For \<open>m = 0\<close> the logarithm is \<open>k\<close> exactly. Otherwise it lies
    strictly between \<open>k\<close> and \<open>k + 1\<close>, and the double nearest to it is \<open>k\<close>
    itself when \<open>log2 (1 + m / 2 ^ 52)\<close> is below half the gap between \<open>k\<close> and
    the next double, which is \<open>2 ^ (e - 53)\<close> for \<open>2 ^ e \<le> k < 2 ^ (e + 1)\<close>: the
    result is \<open>k\<close> for \<open>m \<le> \<lfloor>2 ^ 52 * (2 powr (2 ^ e / 2 ^ 53) - 1)\<rfloor>\<close>.
    \<open>log2_direct_thresholds\<close> lists these bounds for \<open>e = 0, \<dots>, 9\<close>, the exponents
    of a double (\<open>k < 1024\<close>). Past the range of a double \<^verbatim>\<open>math.log2\<close> adds the
    exponent to the logarithm of the mantissa, which is rounded to a multiple of
    \<open>2 ^ - 53\<close> first; the sum is \<open>k\<close> for
    \<open>m \<le> \<lfloor>2 ^ 52 * (2 powr ((2 ^ e + 1 / 2) / 2 ^ 53) - 1)\<rfloor>\<close>, and
    \<open>log2_split_thresholds\<close> lists these bounds for \<open>e = 10, \<dots>, 51\<close>. The tables end
    there: an integer of \<open>2 ^ 52\<close> bits or more is beyond what an interpreter can
    hold, and \<open>log2_threshold\<close> is 0 for it.
  \<^item> \<^verbatim>\<open>math.ceil\<close> of the rounded logarithm is \<open>k\<close> when the logarithm was rounded
    to \<open>k\<close>, and \<open>k + 1\<close> otherwise.

  The bounds are those of a logarithm that is rounded correctly, which is what the C
  library's \<^verbatim>\<open>log2\<close> returns at these arguments.

  So at \<open>2 ^ 49 + 1\<close> (\<open>k = 49\<close>, \<open>m = 8\<close>, bound 11) the result is 49, and at
  \<open>2 ^ 48 + 1\<close> (\<open>k = 48\<close>, \<open>m = 16\<close>, bound 11) it is 49.
\<close>

function bit_length :: "int \<Rightarrow> nat" where
  "bit_length n = (if n \<le> 0 then 0 else Suc (bit_length (n div 2)))"
  by pat_completeness auto
termination
  by (relation "measure nat") auto

definition float_of_int :: "int \<Rightarrow> int" where
  "float_of_int n =
     (let b = bit_length n in
      if b \<le> 53 then n
      else
        let sh = b - 53;
            q = n div 2 ^ sh;
            r = n mod 2 ^ sh;
            half = 2 ^ (sh - 1)
        in (if r > half \<or> (r = half \<and> odd q) then q + 1 else q) * 2 ^ sh)"

definition exponent :: "int \<Rightarrow> nat" where
  "exponent d = bit_length d - 1"

definition fraction :: "int \<Rightarrow> int" where
  "fraction d = (d - 2 ^ exponent d) * 2 ^ 52 div 2 ^ exponent d"

definition log2_direct_thresholds :: "int list" where
  "log2_direct_thresholds = [0, 0, 1, 2, 5, 11, 22, 44, 88, 177]"

definition log2_split_thresholds :: "int list" where
  "log2_split_thresholds =
     [355, 709, 1419, 2839, 5678, 11356, 22713, 45426, 90852, 181704, 363408, 726817,
      1453635, 2907270, 5814540, 11629080, 23258160, 46516320, 93032640, 186065283,
      372130574, 744261179, 1488522482, 2977045455, 5954092879, 11908193630,
      23816418748, 47632963445, 95266430688, 190534876585, 381077814175, 762187873735,
      1524504739922, 3049525536974, 6101116001290, 12210497305791, 24454100628277,
      49040984604769, 98615990519156, 199391390042383, 407610591105403,
      852113092622101]"

definition log2_threshold :: "nat \<Rightarrow> int" where
  "log2_threshold k =
     (let e = bit_length (int k) - 1 in
      if e < 10 then log2_direct_thresholds ! e
      else if e < 52 then log2_split_thresholds ! (e - 10)
      else 0)"

definition log2_ceil :: "int \<Rightarrow> int" where
  "log2_ceil d =
     (if fraction d \<le> log2_threshold (exponent d) then int (exponent d)
      else int (exponent d) + 1)"

definition closest_power_of_two_bits :: "int \<Rightarrow> error + int" where
  "closest_power_of_two_bits v =
     (if v \<le> 0 then Inl ValueError else Inr (log2_ceil (float_of_int v)))"

text \<open>\<^verbatim>\<open>1 << b\<close>: a negative shift count raises \<^verbatim>\<open>ValueError\<close>.\<close>

definition lshift :: "int \<Rightarrow> int \<Rightarrow> error + int" where
  "lshift a b = (if b < 0 then Inl ValueError else Inr (push_bit (nat b) a))"

definition closest_power_of_two :: "int \<Rightarrow> error + int" where
  "closest_power_of_two v =
     (case closest_power_of_two_bits v of
        Inl e \<Rightarrow> Inl e
      | Inr b \<Rightarrow> lshift 1 b)"

section \<open>Text encoding\<close>

text \<open>
  A Python \<^verbatim>\<open>str\<close> is a sequence of code points and \<^verbatim>\<open>bytes\<close> a sequence of bytes.
  \<^verbatim>\<open>value.encode()\<close> and \<^verbatim>\<open>data.decode()\<close> use UTF-8 with strict error handling:
  encoding raises \<^verbatim>\<open>UnicodeEncodeError\<close> on a surrogate (and no \<^verbatim>\<open>str\<close> holds a code
  point from \<open>0x110000\<close> on), decoding raises \<^verbatim>\<open>UnicodeDecodeError\<close> on a byte sequence
  that is not well-formed UTF-8 (a stray or missing continuation byte, an overlong
  form, a surrogate, a value past \<open>0x10FFFF\<close>).
\<close>

type_synonym byte = "8 word"
type_synonym bytes = "byte list"
type_synonym str = "nat list"

definition encode_char :: "nat \<Rightarrow> error + bytes" where
  "encode_char c =
     (if c < 0x80 then Inr [of_nat c]
      else if c < 0x800 then Inr [of_nat (0xC0 + c div 64), of_nat (0x80 + c mod 64)]
      else if c < 0x10000 then
        (if 0xD800 \<le> c \<and> c \<le> 0xDFFF then Inl UnicodeEncodeError
         else Inr [of_nat (0xE0 + c div 4096), of_nat (0x80 + c div 64 mod 64),
                   of_nat (0x80 + c mod 64)])
      else if c < 0x110000 then
        Inr [of_nat (0xF0 + c div 262144), of_nat (0x80 + c div 4096 mod 64),
             of_nat (0x80 + c div 64 mod 64), of_nat (0x80 + c mod 64)]
      else Inl UnicodeEncodeError)"

fun encode :: "str \<Rightarrow> error + bytes" where
  "encode [] = Inr []"
| "encode (c # cs) =
     (case encode_char c of
        Inl e \<Rightarrow> Inl e
      | Inr bs \<Rightarrow> (case encode cs of Inl e \<Rightarrow> Inl e | Inr rest \<Rightarrow> Inr (bs @ rest)))"

definition continuation :: "byte \<Rightarrow> bool" where
  "continuation b = (0x80 \<le> unat b \<and> unat b < 0xC0)"

definition low6 :: "byte \<Rightarrow> nat" where
  "low6 b = unat b - 0x80"

fun decode :: "bytes \<Rightarrow> error + str" where
  "decode [] = Inr []"
| "decode (b0 # rest) =
     (let x = unat b0 in
      if x < 0x80 then
        (case decode rest of Inl e \<Rightarrow> Inl e | Inr cs \<Rightarrow> Inr (x # cs))
      else if 0xC0 \<le> x \<and> x < 0xE0 then
        (case rest of
           b1 # r \<Rightarrow>
             (let c = (x - 0xC0) * 64 + low6 b1 in
              if continuation b1 \<and> 0x80 \<le> c then
                (case decode r of Inl e \<Rightarrow> Inl e | Inr cs \<Rightarrow> Inr (c # cs))
              else Inl UnicodeDecodeError)
         | _ \<Rightarrow> Inl UnicodeDecodeError)
      else if 0xE0 \<le> x \<and> x < 0xF0 then
        (case rest of
           b1 # b2 # r \<Rightarrow>
             (let c = (x - 0xE0) * 4096 + low6 b1 * 64 + low6 b2 in
              if continuation b1 \<and> continuation b2 \<and> 0x800 \<le> c
                 \<and> \<not> (0xD800 \<le> c \<and> c \<le> 0xDFFF) then
                (case decode r of Inl e \<Rightarrow> Inl e | Inr cs \<Rightarrow> Inr (c # cs))
              else Inl UnicodeDecodeError)
         | _ \<Rightarrow> Inl UnicodeDecodeError)
      else if 0xF0 \<le> x \<and> x < 0xF8 then
        (case rest of
           b1 # b2 # b3 # r \<Rightarrow>
             (let c = (x - 0xF0) * 262144 + low6 b1 * 4096 + low6 b2 * 64 + low6 b3 in
              if continuation b1 \<and> continuation b2 \<and> continuation b3
                 \<and> 0x10000 \<le> c \<and> c < 0x110000 then
                (case decode r of Inl e \<Rightarrow> Inl e | Inr cs \<Rightarrow> Inr (c # cs))
              else Inl UnicodeDecodeError)
         | _ \<Rightarrow> Inl UnicodeDecodeError)
      else Inl UnicodeDecodeError)"

definition NULL_BYTE :: bytes where
  "NULL_BYTE = [0]"

section \<open>The memory port\<close>

text \<open>
  Modelled from the spec: \<^verbatim>\<open>gd/memory/state.py\<close> (\<^verbatim>\<open>AbstractState\<close>) and \<^verbatim>\<open>gd/enums.py\<close>
  (\<^verbatim>\<open>ByteOrder\<close>) are not among the sources. The port gives raw reads and writes of
  bytes at an address, typed reads and writes with an explicit byte order, and
  \<^verbatim>\<open>allocate(size)\<close> returning the address of freshly reserved memory.

  The state holds the target's configuration and native byte order, its memory as
  a total map from addresses to bytes, the address the next allocation returns, and
  the list of the port calls made so far, oldest first (a typed access is one raw
  access of the bytes of its type). A read or a write is total (a failing access of
  an unmapped address is not modelled); a typed write of a value outside the range
  of its type raises and writes nothing.

  The target address space is the addresses a pointer of the configured width
  holds, \<open>0 \<le> a < 2 ^ bits\<close>. \<^verbatim>\<open>allocate(size)\<close> reserves the \<open>size\<close> bytes from
  \<open>next_block\<close> on when there is at least one and they lie inside the address
  space; otherwise it fails with the port's error and changes nothing.
\<close>

datatype ByteOrder = NATIVE | LITTLE | BIG

datatype call = ReadAt int int | WriteAt int bytes | Allocate int

record state =
  config :: PlatformConfig
  big_endian :: bool
  memory :: "int \<Rightarrow> byte"
  next_block :: int
  calls :: "call list"

definition stored_bytes :: "state \<Rightarrow> int \<Rightarrow> int \<Rightarrow> bytes" where
  "stored_bytes s address n = map (\<lambda>i. memory s (address + int i)) [0..<nat n]"

definition read_at :: "state \<Rightarrow> int \<Rightarrow> int \<Rightarrow> bytes \<times> state" where
  "read_at s address n = (stored_bytes s address n, s\<lparr>calls := calls s @ [ReadAt address n]\<rparr>)"

definition write_at :: "state \<Rightarrow> int \<Rightarrow> bytes \<Rightarrow> state" where
  "write_at s address data =
     s\<lparr>memory := (\<lambda>x. if address \<le> x \<and> x < address + int (length data)
                        then data ! nat (x - address) else memory s x),
       calls := calls s @ [WriteAt address data]\<rparr>"

definition address_space :: "state \<Rightarrow> int" where
  "address_space s = 2 ^ nat (bits (config s))"

definition allocate :: "state \<Rightarrow> int \<Rightarrow> error + int \<times> state" where
  "allocate s size' =
     (if 0 \<le> next_block s \<and> 0 < size' \<and> next_block s + size' \<le> address_space s then
        Inr (next_block s,
             s\<lparr>next_block := next_block s + size', calls := calls s @ [Allocate size']\<rparr>)
      else Inl MemoryAccessError)"

text \<open>
  The sizes passed to \<^verbatim>\<open>allocate\<close>, in call order.
\<close>

fun allocations :: "call list \<Rightarrow> int list" where
  "allocations [] = []"
| "allocations (Allocate n # cs) = n # allocations cs"
| "allocations (c # cs) = allocations cs"

text \<open>
  Unsigned and two's-complement integers of \<open>n\<close> bytes, least significant byte
  first; \<open>in_order\<close> reverses the bytes for a big-endian access.
\<close>

fun int_to_bytes :: "nat \<Rightarrow> int \<Rightarrow> bytes" where
  "int_to_bytes 0 v = []"
| "int_to_bytes (Suc n) v = word_of_int v # int_to_bytes n (v div 256)"

fun bytes_to_int :: "bytes \<Rightarrow> int" where
  "bytes_to_int [] = 0"
| "bytes_to_int (b # bs) = uint b + 256 * bytes_to_int bs"

definition in_order :: "state \<Rightarrow> ByteOrder \<Rightarrow> bytes \<Rightarrow> bytes" where
  "in_order s order bs =
     (if order = BIG \<or> (order = NATIVE \<and> big_endian s) then rev bs else bs)"

definition read_usize :: "state \<Rightarrow> int \<Rightarrow> ByteOrder \<Rightarrow> error + int \<times> state" where
  "read_usize s address order =
     (case scalar_compute_size USize (config s) of
        Inl e \<Rightarrow> Inl e
      | Inr n \<Rightarrow>
          (case read_at s address n of
             (bs, s1) \<Rightarrow> Inr (bytes_to_int (in_order s order bs), s1)))"

definition write_usize :: "state \<Rightarrow> int \<Rightarrow> int \<Rightarrow> ByteOrder \<Rightarrow> error + state" where
  "write_usize s address v order =
     (case scalar_compute_size USize (config s) of
        Inl e \<Rightarrow> Inl e
      | Inr n \<Rightarrow>
          if v < 0 \<or> 2 ^ nat (8 * n) \<le> v then Inl StructError
          else Inr (write_at s address (in_order s order (int_to_bytes (nat n) v))))"

text \<open>
  The value a typed read would return, without the call: what a field holds in a state.
\<close>

definition stored_usize :: "state \<Rightarrow> int \<Rightarrow> ByteOrder \<Rightarrow> error + int" where
  "stored_usize s address order =
     (case read_usize s address order of Inl e \<Rightarrow> Inl e | Inr (v, s1) \<Rightarrow> Inr v)"

definition read_isize :: "state \<Rightarrow> int \<Rightarrow> ByteOrder \<Rightarrow> error + int \<times> state" where
  "read_isize s address order =
     (case scalar_compute_size ISize (config s) of
        Inl e \<Rightarrow> Inl e
      | Inr n \<Rightarrow>
          (case read_at s address n of
             (bs, s1) \<Rightarrow>
               (let u = bytes_to_int (in_order s order bs) in
                Inr (if 2 ^ (nat (8 * n) - 1) \<le> u then u - 2 ^ nat (8 * n) else u, s1))))"


definition stored_isize :: "state \<Rightarrow> int \<Rightarrow> ByteOrder \<Rightarrow> error + int" where
  "stored_isize s address order =
     (case read_isize s address order of Inl e \<Rightarrow> Inl e | Inr (v, s1) \<Rightarrow> Inr v)"

text \<open>
  \<^verbatim>\<open>ArrayField.read\<close> builds an \<^verbatim>\<open>Array\<close> proxy from its arguments and reads nothing;
  \<^verbatim>\<open>ArrayField.write\<close> has the body \<^verbatim>\<open>pass\<close>. Both take the field, the state, the
  address and the byte order (the proxy's handle to the state is left out of the
  record: it is the state the call was given).
\<close>

record Array =
  array_address :: int
  array_type :: Field
  array_length :: "int option"
  array_order :: ByteOrder

fun ArrayField_read :: "Field \<Rightarrow> state \<Rightarrow> int \<Rightarrow> ByteOrder \<Rightarrow> Array \<times> state" where
  "ArrayField_read (ArrayField t len off) s address order =
     (\<lparr>array_address = address, array_type = t, array_length = len, array_order = order\<rparr>, s)"
| "ArrayField_read f s address order =
     (\<lparr>array_address = address, array_type = f, array_length = None, array_order = order\<rparr>, s)"

definition ArrayField_write :: "Field \<Rightarrow> state \<Rightarrow> int \<Rightarrow> Array \<Rightarrow> ByteOrder \<Rightarrow> state" where
  "ArrayField_write f s address v order = s"

section \<open>Layout of the two string types\<close>

text \<open>
  Modelled from the spec: \<^verbatim>\<open>gd/memory/base.py\<close> and \<^verbatim>\<open>gd/memory/markers.py\<close> (\<^verbatim>\<open>Struct\<close>,
  \<^verbatim>\<open>Union\<close>, the markers and the layout computation) are not among the sources. A
  struct places each field at its cursor rounded up to the field's alignment; a
  union places every field at offset 0 and has the size of its largest member; a
  pointer and \<^verbatim>\<open>uintsize_t\<close> have the size of \<^verbatim>\<open>USize\<close>, \<^verbatim>\<open>intsize_t\<close> of \<^verbatim>\<open>ISize\<close>,
  \<^verbatim>\<open>char_t\<close> of \<^verbatim>\<open>Byte\<close>. A named field is accessed at the cursor's address plus the
  field's offset, through the typed access of the field's kind
  (\<^verbatim>\<open>ActualField.__get__\<close> and \<^verbatim>\<open>__set__\<close> in \<^verbatim>\<open>fields.py\<close>).

  \<^verbatim>\<open>std_string\<close> is \<^verbatim>\<open>content\<close> (the union of a 16-byte inline array and a pointer),
  \<^verbatim>\<open>length\<close>, \<^verbatim>\<open>capacity\<close>. \<^verbatim>\<open>old_std_long_string\<close> is \<^verbatim>\<open>capacity\<close>, \<^verbatim>\<open>length\<close>,
  \<^verbatim>\<open>ref_count\<close> and the unsized \<^verbatim>\<open>content\<close>, declared with \<^verbatim>\<open>origin=3\<close>: the address
  of the struct is the address of \<^verbatim>\<open>content\<close>, the three header fields lie before
  it, and the size of the struct is the size of the header.
\<close>

definition CONTENT_SIZE :: int where
  "CONTENT_SIZE = 0x10"

definition round_up :: "int \<Rightarrow> int \<Rightarrow> int" where
  "round_up cursor alignment = ((cursor + alignment - 1) div alignment) * alignment"

record std_string_layout =
  content_size :: int
  length_offset :: int
  capacity_offset :: int

definition std_string_fields :: "PlatformConfig \<Rightarrow> error + std_string_layout" where
  "std_string_fields cfg =
     (case compute_size (ArrayField (Scalar Byte 0) (Some CONTENT_SIZE) 0) cfg of
        Inl e \<Rightarrow> Inl e
      | Inr inline \<Rightarrow>
          (case compute_size (Scalar USize 0) cfg of
             Inl e \<Rightarrow> Inl e
           | Inr word \<Rightarrow>
               (let csize = max inline word;
                    loff = round_up csize word;
                    coff = round_up (loff + word) word
                in Inr \<lparr>content_size = csize, length_offset = loff, capacity_offset = coff\<rparr>)))"



section \<open>String marshalling (\<^verbatim>\<open>gd/memory/string.py\<close>)\<close>

text \<open>
  A string object is a cursor: the state, the address and the byte order. The
  methods below take the three and return the value and the state after the call.

  \<^verbatim>\<open>std_string.get_value\<close>. The handler of the second \<^verbatim>\<open>try\<close> evaluates the name
  \<^verbatim>\<open>EMPTY_STRING\<close>. \<^verbatim>\<open>string.py\<close> binds the names \<^verbatim>\<open>TYPE_CHECKING\<close>, \<^verbatim>\<open>Type\<close>, \<^verbatim>\<open>TypeAlias\<close>,
  \<^verbatim>\<open>Struct\<close>, \<^verbatim>\<open>Union\<close>, \<^verbatim>\<open>char_t\<close>, \<^verbatim>\<open>intsize_t\<close>, \<^verbatim>\<open>mut_array\<close>, \<^verbatim>\<open>mut_pointer\<close>,
  \<^verbatim>\<open>uintsize_t\<close>, \<^verbatim>\<open>closest_power_of_two\<close>, \<^verbatim>\<open>CONTENT_SIZE\<close>, \<^verbatim>\<open>NULL_BYTE\<close> and its own
  classes and aliases; \<^verbatim>\<open>EMPTY_STRING\<close> is not among them and is no builtin, so the
  handler raises \<^verbatim>\<open>NameError\<close>.
\<close>

definition get_value_heap :: "state \<Rightarrow> int \<Rightarrow> ByteOrder \<Rightarrow> int \<Rightarrow> error + str \<times> state" where
  "get_value_heap s address order length' =
     (case read_usize s address order of
        Inl e \<Rightarrow> Inl e
      | Inr (pointer, s1) \<Rightarrow>
          (case read_at s1 pointer length' of
             (bs, s2) \<Rightarrow>
               (case decode bs of
                  Inr text \<Rightarrow> Inr (text, s2)
                | Inl e \<Rightarrow> if e = UnicodeDecodeError then Inl NameError else Inl e)))"

definition std_string_get_value :: "state \<Rightarrow> int \<Rightarrow> ByteOrder \<Rightarrow> error + str \<times> state" where
  "std_string_get_value s address order =
     (case std_string_fields (config s) of
        Inl e \<Rightarrow> Inl e
      | Inr content \<Rightarrow>
     (case read_usize s (address + capacity_offset content) order of
        Inl e \<Rightarrow> Inl e
      | Inr (capacity, s1) \<Rightarrow>
     (case read_usize s1 (address + length_offset content) order of
        Inl e \<Rightarrow> Inl e
      | Inr (length', s2) \<Rightarrow>
          if capacity < content_size content then
            (case read_at s2 address length' of
               (bs, s3) \<Rightarrow>
                 (case decode bs of
                    Inr text \<Rightarrow> Inr (text, s3)
                  | Inl e \<Rightarrow>
                      if e = UnicodeDecodeError then get_value_heap s3 address order length'
                      else Inl e))
          else get_value_heap s2 address order length')))"

text \<open>
  \<^verbatim>\<open>std_string.set_value\<close>. In the branch \<^verbatim>\<open>length <= capacity\<close> the source writes
  through \<^verbatim>\<open>content.inline.write(data)\<close> and \<^verbatim>\<open>content.pointer.value.write(data)\<close>
  (\<^verbatim>\<open>gd/memory/array.py\<close> is not among the sources): modelled from the spec as the
  write of the bytes in place, at the inline buffer or at the address the heap
  pointer holds.
\<close>

definition std_string_set_value :: "state \<Rightarrow> int \<Rightarrow> ByteOrder \<Rightarrow> str \<Rightarrow> error + state" where
  "std_string_set_value s address order v =
     (case std_string_fields (config s) of
        Inl e \<Rightarrow> Inl e
      | Inr content \<Rightarrow>
     (case read_usize s (address + capacity_offset content) order of
        Inl e \<Rightarrow> Inl e
      | Inr (capacity, s1) \<Rightarrow>
     (case encode v of
        Inl e \<Rightarrow> Inl e
      | Inr encoded \<Rightarrow>
     (let length' = int (length encoded);
          data = encoded @ NULL_BYTE;
          size' = int (length data)
      in
     (case write_usize s1 (address + length_offset content) length' order of
        Inl e \<Rightarrow> Inl e
      | Inr s2 \<Rightarrow>
          if length' > capacity then
            if length' < content_size content then
              (case write_usize s2 (address + capacity_offset content)
                      (content_size content - 1) order of
                 Inl e \<Rightarrow> Inl e
               | Inr s3 \<Rightarrow> Inr (write_at s3 address data))
            else
              (case closest_power_of_two size' of
                 Inl e \<Rightarrow> Inl e
               | Inr rounded \<Rightarrow>
              (case allocate s2 rounded of
                 Inl e \<Rightarrow> Inl e
               | Inr (block, s3) \<Rightarrow>
              (case write_usize s3 address block order of
                 Inl e \<Rightarrow> Inl e
               | Inr s4 \<Rightarrow>
              (case write_usize s4 (address + capacity_offset content) (rounded - 1) order of
                 Inl e \<Rightarrow> Inl e
               | Inr s5 \<Rightarrow>
              (case read_usize s5 address order of
                 Inl e \<Rightarrow> Inl e
               | Inr (pointer, s6) \<Rightarrow> Inr (write_at s6 pointer data))))))
          else if capacity < content_size content then Inr (write_at s2 address data)
          else
            (case read_usize s2 address order of
               Inl e \<Rightarrow> Inl e
             | Inr (pointer, s3) \<Rightarrow> Inr (write_at s3 pointer data)))))))"


section \<open>Sample states\<close>

text \<open>
  A 64-bit little-endian Linux target whose memory is all zero and whose next
  allocation is at address 4096: a \<^verbatim>\<open>std_string\<close> at address 0 is empty there, with
  capacity 0. \<open>heap_string\<close> is the same target with a \<^verbatim>\<open>std_string\<close> at address 0
  whose capacity field (at offset 24) holds 31 and whose heap pointer (at offset 0)
  holds 4096: a string that already lives on the heap.
\<close>

definition blank :: state where
  "blank = \<lparr>config = \<lparr>bits = 64, platform = LINUX\<rparr>, big_endian = False,
             memory = (\<lambda>x. 0), next_block = 4096, calls = []\<rparr>"

definition heap_string :: state where
  "heap_string = blank\<lparr>memory := (\<lambda>x. if x = 1 then 16 else if x = 24 then 31 else 0)\<rparr>"

text \<open>
  \<open>invalid_string\<close> is the same target with a \<^verbatim>\<open>std_string\<close> at address 0 of length 1
  and capacity 15 whose first inline byte is \<open>0xFF\<close>. The heap pointer shares its
  bytes with the inline buffer, so it holds 255, and the byte at address 255 is
  \<open>0xFF\<close> as well: neither place holds valid UTF-8.
\<close>

definition invalid_string :: state where
  "invalid_string =
     blank\<lparr>memory := (\<lambda>x. if x = 0 then 0xFF else if x = 16 then 1
                          else if x = 24 then 15 else if x = 255 then 0xFF else 0)\<rparr>"

text \<open>
  \<open>self_pointing\<close> is the same target with a \<^verbatim>\<open>std_string\<close> at address 0 of capacity 31
  whose heap pointer holds 16, the address of the string's own length field.
\<close>

definition self_pointing :: state where
  "self_pointing = blank\<lparr>memory := (\<lambda>x. if x = 0 then 16 else if x = 24 then 31 else 0)\<rparr>"


section \<open>Facts about the power-of-two helper\<close>


lemma bit_length_pos: "0 < n \<Longrightarrow> bit_length n = Suc (bit_length (n div 2))"
  by simp

lemma bit_length_nonpos: "n \<le> 0 \<Longrightarrow> bit_length n = 0"
  by simp

declare bit_length.simps [simp del]

lemma bit_length_bounds: "0 < n \<Longrightarrow> 2 ^ (bit_length n - 1) \<le> n \<and> n < 2 ^ bit_length n"
proof (induction n rule: bit_length.induct)
  case (1 n)
  show ?case
  proof (cases "n = 1")
    case True
    then show ?thesis by (simp add: bit_length_pos bit_length_nonpos)
  next
    case False
    with 1 have h: "0 < n div 2" by simp
    from 1 have "\<not> n \<le> 0" by simp
    from 1(1) [OF this h] have ih: "2 ^ (bit_length (n div 2) - 1) \<le> n div 2" "n div 2 < 2 ^ bit_length (n div 2)" by auto
    have pos: "0 < bit_length (n div 2)" using h by (simp add: bit_length_pos)
    then obtain k where k: "bit_length (n div 2) = Suc k" by (cases "bit_length (n div 2)") auto
    have d: "2 * (n div 2) \<le> n" "n < 2 * (n div 2) + 2" by linarith+
    show ?thesis using ih d 1(2) by (simp add: bit_length_pos k)
  qed
qed

lemma bit_length_le_iff: "0 < n \<Longrightarrow> bit_length n \<le> k \<longleftrightarrow> n < 2 ^ k"
proof
  assume "0 < n" "bit_length n \<le> k"
  then have "n < 2 ^ bit_length n" "(2::int) ^ bit_length n \<le> 2 ^ k"
    using bit_length_bounds by (auto intro: power_increasing)
  then show "n < 2 ^ k" by linarith
next
  assume n: "0 < n" "n < 2 ^ k"
  show "bit_length n \<le> k"
  proof (rule ccontr)
    assume "\<not> bit_length n \<le> k"
    then have "k \<le> bit_length n - 1" by simp
    then have "(2::int) ^ k \<le> 2 ^ (bit_length n - 1)" by (intro power_increasing) auto
    with bit_length_bounds [OF n(1)] n(2) show False by linarith
  qed
qed

lemma float_of_int_exact: "0 < n \<Longrightarrow> n < 2 ^ 53 \<Longrightarrow> float_of_int n = n"
  using bit_length_le_iff [of n 53] by (simp add: float_of_int_def Let_def)

lemma bit_length_pow2: "bit_length (2 ^ k) = Suc k"
proof -
  have p: "(0::int) < 2 ^ k" by simp
  have "bit_length (2 ^ k) \<le> Suc k" using bit_length_le_iff [OF p, of "Suc k"] by simp
  moreover have "\<not> bit_length (2 ^ k) \<le> k" using bit_length_le_iff [OF p, of k] by simp
  ultimately show ?thesis by simp
qed

lemma exponent_bounds: "0 < d \<Longrightarrow> 2 ^ exponent d \<le> d \<and> d < 2 * 2 ^ exponent d"
proof -
  assume d: "0 < d"
  then have "0 < bit_length d" by (simp add: bit_length_pos)
  then have "bit_length d = Suc (bit_length d - 1)" by simp
  then have "(2::int) ^ bit_length d = 2 * 2 ^ (bit_length d - 1)" by (metis power_Suc)
  with bit_length_bounds [OF d] show ?thesis by (simp add: exponent_def)
qed

lemma log2_threshold_small: "k < 64 \<Longrightarrow> 0 \<le> log2_threshold k \<and> log2_threshold k \<le> 11"
proof -
  assume k: "k < 64"
  have "bit_length (int k) \<le> 6"
  proof (cases "k = 0")
    case True
    then show ?thesis by (simp add: bit_length_nonpos)
  next
    case False
    then have "0 < int k" by simp
    from bit_length_le_iff [OF this, of 6] k show ?thesis by simp
  qed
  then consider "bit_length (int k) - 1 = 0" | "bit_length (int k) - 1 = 1"
    | "bit_length (int k) - 1 = 2" | "bit_length (int k) - 1 = 3"
    | "bit_length (int k) - 1 = 4" | "bit_length (int k) - 1 = 5"
    by linarith
  then show ?thesis
    by cases (simp_all add: log2_threshold_def log2_direct_thresholds_def Let_def)
qed

text \<open>
  Up to \<open>2 ^ 48\<close> the result is the smallest power of two that is not below the
  argument: the conversion to a double is exact there, and an integer that is no
  power of two has a fraction of at least \<open>2 ^ 5\<close>, above the bound 11 under which
  the logarithm is rounded down to the exponent.
\<close>

lemma closest_power_of_two_small:
  assumes "1 \<le> n" "n \<le> 2 ^ 48"
  shows "\<exists>k. closest_power_of_two n = Inr (2 ^ k) \<and> n \<le> 2 ^ k \<and> (\<forall>j. n \<le> 2 ^ j \<longrightarrow> k \<le> j)"
proof -
  let ?k = "exponent n"
  have pos: "0 < n" using assms by simp
  have fl: "float_of_int n = n" using float_of_int_exact [of n] assms by simp
  from exponent_bounds [OF pos] have lo: "2 ^ ?k \<le> n" and hi: "n < 2 * 2 ^ ?k" by auto
  have k48: "?k \<le> 48"
  proof (rule ccontr)
    assume "\<not> ?k \<le> 48"
    then have "49 \<le> ?k" by simp
    then have "(2::int) ^ 49 \<le> 2 ^ ?k" by (intro power_increasing) auto
    with lo assms(2) show False by simp
  qed
  then have thr: "0 \<le> log2_threshold ?k" "log2_threshold ?k \<le> 11"
    using log2_threshold_small [of ?k] by auto
  have bits: "closest_power_of_two_bits n = Inr (log2_ceil n)"
    using pos fl by (simp add: closest_power_of_two_bits_def)
  show ?thesis
  proof (cases "n = 2 ^ ?k")
    case True
    then have z: "n - 2 ^ ?k = 0" by linarith
    have "fraction n = 0" by (simp add: fraction_def z)
    with thr have "log2_ceil n = int ?k" by (simp add: log2_ceil_def)
    with bits have r: "closest_power_of_two n = Inr (2 ^ ?k)"
      by (simp add: closest_power_of_two_def lshift_def push_bit_eq_mult)
    have "\<forall>j. n \<le> 2 ^ j \<longrightarrow> ?k \<le> j"
    proof (intro allI impI)
      fix j assume "n \<le> 2 ^ j"
      with lo have "(2::int) ^ ?k \<le> 2 ^ j" by linarith
      then show "?k \<le> j" by (rule power_le_imp_le_exp [rotated]) simp
    qed
    moreover have "n \<le> 2 ^ ?k" using True by linarith
    ultimately show ?thesis using r by blast
  next
    case False
    with lo have gt: "2 ^ ?k < n" by linarith
    have k47: "?k \<le> 47"
    proof (rule ccontr)
      assume "\<not> ?k \<le> 47"
      with k48 have "?k = 48" by simp
      with gt assms(2) show False by simp
    qed
    then have split: "(2::int) ^ 52 = 2 ^ (52 - ?k) * 2 ^ ?k"
      by (simp add: power_add [symmetric])
    have "(n - 2 ^ ?k) * 2 ^ 52 = ((n - 2 ^ ?k) * 2 ^ (52 - ?k)) * 2 ^ ?k"
      by (simp only: split mult.assoc)
    then have fr: "fraction n = (n - 2 ^ ?k) * 2 ^ (52 - ?k)"
      by (simp add: fraction_def)
    have "5 \<le> 52 - ?k" using k47 by simp
    then have "(2::int) ^ 5 \<le> 2 ^ (52 - ?k)" by (intro power_increasing) auto
    moreover have "1 \<le> n - 2 ^ ?k" using gt by simp
    ultimately have "2 ^ 5 * 1 \<le> 2 ^ (52 - ?k) * (n - 2 ^ ?k)"
      by (intro mult_mono) auto
    then have "32 \<le> fraction n" by (simp add: fr mult.commute)
    with thr have "log2_ceil n = int ?k + 1" by (simp add: log2_ceil_def)
    with bits have r: "closest_power_of_two n = Inr (2 ^ Suc ?k)"
      by (simp add: closest_power_of_two_def lshift_def push_bit_eq_mult nat_add_distrib)
    have "\<forall>j. n \<le> 2 ^ j \<longrightarrow> Suc ?k \<le> j"
    proof (intro allI impI)
      fix j assume "n \<le> 2 ^ j"
      with gt have "(2::int) ^ ?k < 2 ^ j" by linarith
      then have "?k < j" by (rule power_less_imp_less_exp [rotated]) simp
      then show "Suc ?k \<le> j" by simp
    qed
    moreover have "n \<le> 2 ^ Suc ?k" using hi by simp
    ultimately show ?thesis using r by blast
  qed
qed

lemma bit_length_between:
  assumes "2 ^ k \<le> n" "n < 2 * 2 ^ k"
  shows "bit_length n = Suc k"
proof -
  have "(0::int) < 2 ^ k" by simp
  with assms(1) have p: "0 < n" by linarith
  have "bit_length n \<le> Suc k" using bit_length_le_iff [OF p, of "Suc k"] assms(2) by simp
  moreover have "\<not> bit_length n \<le> k" using bit_length_le_iff [OF p, of k] assms(1) by simp
  ultimately show ?thesis by simp
qed

lemma log2_ceil_eval:
  assumes "2 ^ k \<le> d" "d < 2 * 2 ^ k"
  shows "log2_ceil d
           = (if (d - 2 ^ k) * 2 ^ 52 div 2 ^ k \<le> log2_threshold k then int k else int k + 1)"
  using bit_length_between [OF assms] by (simp add: log2_ceil_def exponent_def fraction_def)

lemma closest_power_of_two_eval:
  assumes "0 < n" "float_of_int n = d" "2 ^ k \<le> d" "d < 2 * 2 ^ k"
  shows "closest_power_of_two n
           = Inr (if (d - 2 ^ k) * 2 ^ 52 div 2 ^ k \<le> log2_threshold k then 2 ^ k else 2 * 2 ^ k)"
  using assms(1,2) log2_ceil_eval [OF assms(3,4)]
  by (simp add: closest_power_of_two_def closest_power_of_two_bits_def lshift_def
      push_bit_eq_mult nat_add_distrib)

lemma float_of_int_2_53: "float_of_int (2 ^ 53) = 2 ^ 53"
  unfolding float_of_int_def Let_def bit_length_pow2 by simp

lemma float_of_int_2_53_1: "float_of_int (2 ^ 53 + 1) = 2 ^ 53"
proof -
  have b: "bit_length (2 ^ 53 + 1) = Suc 53" by (rule bit_length_between) simp_all
  show ?thesis unfolding float_of_int_def Let_def b by simp
qed

lemma float_of_int_2_53_2: "float_of_int (2 ^ 53 + 2) = 2 ^ 53 + 2"
proof -
  have b: "bit_length (2 ^ 53 + 2) = Suc 53" by (rule bit_length_between) simp_all
  show ?thesis unfolding float_of_int_def Let_def b by simp
qed

lemma closest_power_of_two_2_53: "closest_power_of_two (2 ^ 53) = Inr (2 ^ 53)"
  using closest_power_of_two_eval [OF _ float_of_int_2_53, of 53] log2_threshold_small [of 53]
  by simp

lemma closest_power_of_two_2_53_1: "closest_power_of_two (2 ^ 53 + 1) = Inr (2 ^ 53)"
  using closest_power_of_two_eval [OF _ float_of_int_2_53_1, of 53] log2_threshold_small [of 53]
  by simp

text \<open>
  Between \<open>2 ^ 49\<close> and \<open>2 ^ 53\<close> the conversion is still exact, and the rounding of
  the logarithm gives the exponent just above a power of two: the result is below
  the argument at \<open>2 ^ 49 + 1\<close> and at \<open>2 ^ 52 + 1\<close>, and at \<open>2 ^ 53 + 2\<close>, which is
  a double. At \<open>2 ^ 48 + 1\<close> and at \<open>2 ^ 49 + 2\<close> it is the next power of two.
\<close>

lemma log2_threshold_values:
  "log2_threshold 48 = 11" "log2_threshold 49 = 11" "log2_threshold 52 = 11"
  "log2_threshold 53 = 11"
proof -
  have "bit_length 48 = Suc 5" "bit_length 49 = Suc 5" "bit_length 52 = Suc 5"
    "bit_length 53 = Suc 5"
    by (rule bit_length_between, simp, simp)+
  then show "log2_threshold 48 = 11" "log2_threshold 49 = 11" "log2_threshold 52 = 11"
    "log2_threshold 53 = 11"
    by (simp_all add: log2_threshold_def log2_direct_thresholds_def Let_def)
qed

lemma closest_power_of_two_2_48_1: "closest_power_of_two (2 ^ 48 + 1) = Inr (2 ^ 49)"
  using closest_power_of_two_eval [of "2 ^ 48 + 1" "2 ^ 48 + 1" 48]
  by (simp add: float_of_int_exact log2_threshold_values)

lemma closest_power_of_two_2_49_1: "closest_power_of_two (2 ^ 49 + 1) = Inr (2 ^ 49)"
  using closest_power_of_two_eval [of "2 ^ 49 + 1" "2 ^ 49 + 1" 49]
  by (simp add: float_of_int_exact log2_threshold_values)

lemma closest_power_of_two_2_49_2: "closest_power_of_two (2 ^ 49 + 2) = Inr (2 ^ 50)"
  using closest_power_of_two_eval [of "2 ^ 49 + 2" "2 ^ 49 + 2" 49]
  by (simp add: float_of_int_exact log2_threshold_values)

lemma closest_power_of_two_2_52_1: "closest_power_of_two (2 ^ 52 + 1) = Inr (2 ^ 52)"
  using closest_power_of_two_eval [of "2 ^ 52 + 1" "2 ^ 52 + 1" 52]
  by (simp add: float_of_int_exact log2_threshold_values)

lemma closest_power_of_two_2_53_2: "closest_power_of_two (2 ^ 53 + 2) = Inr (2 ^ 53)"
  using closest_power_of_two_eval [OF _ float_of_int_2_53_2, of 53]
  by (simp add: log2_threshold_values)

section \<open>Sizes of fields\<close>

text \<open>
  C2. For every configuration, \<^verbatim>\<open>Long\<close> and \<^verbatim>\<open>ULong\<close> have size 8 exactly when
  \<^verbatim>\<open>config.bits > 32\<close> and the platform is not Windows, and size 4 otherwise; a \<^verbatim>\<open>Long\<close>
  has size 8 on 64-bit Linux, 4 on 64-bit Windows and 4 on 32-bit Linux.
\<close>

theorem Long_ULong_compute_size:
  "compute_size (Scalar Long off) cfg
     = Inr (if bits cfg > 32 \<and> \<not> is_windows (platform cfg) then 8 else 4)
   \<and> compute_size (Scalar ULong off) cfg
     = Inr (if bits cfg > 32 \<and> \<not> is_windows (platform cfg) then 8 else 4)
   \<and> compute_size (Scalar Long off) \<lparr>bits = 64, platform = LINUX\<rparr> = Inr 8
   \<and> compute_size (Scalar Long off) \<lparr>bits = 64, platform = WINDOWS\<rparr> = Inr 4
   \<and> compute_size (Scalar Long off) \<lparr>bits = 32, platform = LINUX\<rparr> = Inr 4"
  by (simp add: is_windows_def I64_SIZE_def I32_SIZE_def U64_SIZE_def U32_SIZE_def)

text \<open>
  C4. For every configuration and every scalar field class, \<^verbatim>\<open>compute_size\<close> and
  \<^verbatim>\<open>compute_alignment\<close> give the same result. For \<^verbatim>\<open>ISize\<close>, \<^verbatim>\<open>USize\<close> and \<^verbatim>\<open>Size\<close> on a
  bit width that is no key of their table, the same result is the same \<^verbatim>\<open>KeyError\<close>.
\<close>

theorem scalar_size_eq_alignment:
  "compute_size (Scalar k off) cfg = compute_alignment (Scalar k off) cfg"
  by (cases k) simp_all

text \<open>
  C5. For every array field and configuration: without a length, \<^verbatim>\<open>compute_size\<close>
  raises the unsized-array \<^verbatim>\<open>TypeError\<close>, whatever the element field is (the element
  is not asked, and no state is involved: the function takes none); with a length
  \<open>n\<close> it is the element's computed size times \<open>n\<close>, or the element's own error.
\<close>

theorem ArrayField_compute_size:
  "compute_size (ArrayField t None off) cfg = Inl (TypeError UNSIZED_ARRAY)
   \<and> compute_size (ArrayField t (Some n) off) cfg
       = (case compute_size t cfg of Inl e \<Rightarrow> Inl e | Inr element \<Rightarrow> Inr (element * n))"
  by simp

text \<open>
  C9. \<^verbatim>\<open>ArrayField.write\<close> does nothing: for every field, state, address, array value
  and byte order the state after the call is the state before it, so its memory is
  unchanged and the list of port calls has no new entry.
\<close>

theorem ArrayField_write_noop:
  "ArrayField_write f s address v order = s
   \<and> calls (ArrayField_write f s address v order) = calls s
   \<and> memory (ArrayField_write f s address v order) = memory s"
  by (simp add: ArrayField_write_def)

section \<open>The power-of-two helper on its inputs\<close>

text \<open>
  C10. \<^verbatim>\<open>closest_power_of_two(0)\<close> raises the \<^verbatim>\<open>ValueError\<close> of \<^verbatim>\<open>math.log2\<close> and returns
  no value.
\<close>

theorem closest_power_of_two_zero:
  "closest_power_of_two 0 = Inl ValueError \<and> (\<forall>r. closest_power_of_two 0 \<noteq> Inr r)"
  by (simp add: closest_power_of_two_def closest_power_of_two_bits_def)

text \<open>
  C8. The claim is that \<^verbatim>\<open>closest_power_of_two(n)\<close> is the smallest power of two not
  below \<open>n\<close> for every \<open>n \<ge> 1\<close>, with \<open>2 ^ (k + 1)\<close> at \<open>2 ^ k + 1\<close>. At
  \<open>n = 2 ^ 53 + 1\<close> the integer is converted to the double \<open>2 ^ 53\<close> before the
  logarithm is taken, and the function returns \<open>2 ^ 53\<close>, which is below \<open>n\<close>.
\<close>

theorem closest_power_of_two_below_argument:
  "closest_power_of_two (2 ^ 53 + 1) = Inr (2 ^ 53)
   \<and> closest_power_of_two (2 ^ 53) = Inr (2 ^ 53)
   \<and> (2 :: int) ^ 53 < 2 ^ 53 + 1"
  using closest_power_of_two_2_53_1 closest_power_of_two_2_53 by simp

section \<open>Facts about the memory port\<close>

lemma length_int_to_bytes [simp]: "length (int_to_bytes n v) = n"
  by (induction n arbitrary: v) simp_all

lemma bytes_to_int_to_bytes: "0 \<le> v \<Longrightarrow> v < 256 ^ n \<Longrightarrow> bytes_to_int (int_to_bytes n v) = v"
proof (induction n arbitrary: v)
  case 0
  then show ?case by simp
next
  case (Suc n)
  have "0 \<le> v div 256" "v div 256 < 256 ^ n" using Suc.prems by auto
  then have "bytes_to_int (int_to_bytes n (v div 256)) = v div 256" by (rule Suc.IH)
  moreover have "uint (word_of_int v :: 8 word) = v mod 256" by (simp add: uint_word_of_int)
  ultimately show ?case by simp
qed

lemma in_order_length [simp]: "length (in_order s order bs) = length bs"
  by (simp add: in_order_def)

lemma in_order_twice: "big_endian t = big_endian s \<Longrightarrow> in_order t order (in_order s order bs) = bs"
  by (simp add: in_order_def)

lemma in_order_write_at [simp]: "in_order (write_at s a d) order bs = in_order s order bs"
  by (simp add: in_order_def write_at_def)

lemma in_order_calls [simp]: "in_order (s\<lparr>calls := c\<rparr>) order bs = in_order s order bs"
  by (simp add: in_order_def)

lemma in_order_next_block [simp]: "in_order (s\<lparr>next_block := c\<rparr>) order bs = in_order s order bs"
  by (simp add: in_order_def)

lemma write_at_simps [simp]:
  "config (write_at s a d) = config s"
  "big_endian (write_at s a d) = big_endian s"
  "next_block (write_at s a d) = next_block s"
  "calls (write_at s a d) = calls s @ [WriteAt a d]"
  by (simp_all add: write_at_def)

lemma read_at_simps [simp]:
  "fst (read_at s a n) = stored_bytes s a n"
  "snd (read_at s a n) = s\<lparr>calls := calls s @ [ReadAt a n]\<rparr>"
  by (simp_all add: read_at_def)

lemma stored_bytes_calls [simp]: "stored_bytes (s\<lparr>calls := c\<rparr>) a n = stored_bytes s a n"
  by (simp add: stored_bytes_def)

lemma stored_bytes_next_block [simp]: "stored_bytes (s\<lparr>next_block := c\<rparr>) a n = stored_bytes s a n"
  by (simp add: stored_bytes_def)

lemma stored_bytes_write_at_same:
  "n = int (length d) \<Longrightarrow> stored_bytes (write_at s a d) a n = d"
  by (auto simp: stored_bytes_def write_at_def intro!: nth_equalityI)

lemma stored_bytes_write_at_other:
  "b + n \<le> a \<or> a + int (length d) \<le> b \<Longrightarrow> stored_bytes (write_at s a d) b n = stored_bytes s b n"
  by (auto simp: stored_bytes_def write_at_def)

lemma allocations_append [simp]: "allocations (xs @ ys) = allocations xs @ allocations ys"
  by (induction xs rule: allocations.induct) simp_all

lemma USize_sizes:
  "scalar_compute_size USize cfg = Inr w \<Longrightarrow> w = 1 \<or> w = 2 \<or> w = 4 \<or> w = 8"
  by (auto simp: subscript_def U8_SIZE_def U16_SIZE_def U32_SIZE_def U64_SIZE_def split: if_splits)

lemma read_usize_eq:
  "scalar_compute_size USize (config s) = Inr w \<Longrightarrow>
   read_usize s a order
     = Inr (bytes_to_int (in_order s order (stored_bytes s a w)), s\<lparr>calls := calls s @ [ReadAt a w]\<rparr>)"
  by (simp add: read_usize_def read_at_def)

lemma stored_usize_eq:
  "scalar_compute_size USize (config s) = Inr w \<Longrightarrow>
   stored_usize s a order = Inr (bytes_to_int (in_order s order (stored_bytes s a w)))"
  by (simp add: stored_usize_def read_usize_eq)

lemma write_usize_eq:
  "scalar_compute_size USize (config s) = Inr w \<Longrightarrow> 0 \<le> v \<Longrightarrow> v < 2 ^ nat (8 * w) \<Longrightarrow>
   write_usize s a v order = Inr (write_at s a (in_order s order (int_to_bytes (nat w) v)))"
  by (simp add: write_usize_def)

lemma write_usize_InrD:
  "write_usize s a v order = Inr s' \<Longrightarrow>
   \<exists>w. scalar_compute_size USize (config s) = Inr w \<and> 0 \<le> v \<and> v < 2 ^ nat (8 * w)
     \<and> s' = write_at s a (in_order s order (int_to_bytes (nat w) v))"
  by (auto simp: write_usize_def split: sum.splits if_splits)

lemma pow_256: "0 \<le> w \<Longrightarrow> (2::int) ^ nat (8 * w) = 256 ^ nat w"
proof -
  assume "0 \<le> w"
  then have "nat (8 * w) = 8 * nat w" by simp
  then show ?thesis by (simp add: power_mult)
qed

lemma stored_usize_written:
  assumes "scalar_compute_size USize (config s) = Inr w" "0 \<le> v" "v < 2 ^ nat (8 * w)"
  shows "stored_usize (write_at s a (in_order s order (int_to_bytes (nat w) v))) a order = Inr v"
proof -
  have w: "0 \<le> w" using USize_sizes [OF assms(1)] by auto
  have "stored_bytes (write_at s a (in_order s order (int_to_bytes (nat w) v))) a w
          = in_order s order (int_to_bytes (nat w) v)"
    using w by (intro stored_bytes_write_at_same) simp
  moreover have "bytes_to_int (int_to_bytes (nat w) v) = v"
    using assms(2,3) w by (intro bytes_to_int_to_bytes) (simp_all add: pow_256)
  ultimately show ?thesis
    using assms(1) by (simp add: stored_usize_eq in_order_twice)
qed

lemma stored_usize_write_at_other:
  assumes "scalar_compute_size USize (config s) = Inr w" "a + w \<le> b \<or> b + int (length d) \<le> a"
  shows "stored_usize (write_at s b d) a order = stored_usize s a order"
  using assms by (simp add: stored_usize_eq stored_bytes_write_at_other)

lemma stored_usize_calls [simp]: "stored_usize (s\<lparr>calls := c\<rparr>) a order = stored_usize s a order"
  by (simp add: stored_usize_def read_usize_def read_at_def in_order_def split: sum.splits)

lemma stored_usize_next_block [simp]: "stored_usize (s\<lparr>next_block := c\<rparr>) a order = stored_usize s a order"
  by (simp add: stored_usize_def read_usize_def read_at_def in_order_def split: sum.splits)

lemma read_usize_stored:
  "read_usize s a order = Inr (v, s1) \<Longrightarrow>
   stored_usize s a order = Inr v
   \<and> (\<exists>w. scalar_compute_size USize (config s) = Inr w \<and> s1 = s\<lparr>calls := calls s @ [ReadAt a w]\<rparr>)"
  by (auto simp: stored_usize_def read_usize_def read_at_def split: sum.splits)

lemma std_string_fields_InrD:
  assumes "std_string_fields cfg = Inr content"
  shows "\<exists>w. scalar_compute_size USize cfg = Inr w \<and> content_size content = 16
           \<and> length_offset content = 16 \<and> capacity_offset content = 16 + w"
proof -
  from assms obtain w where w: "scalar_compute_size USize cfg = Inr w"
    by (auto simp: std_string_fields_def split: sum.splits)
  from USize_sizes [OF w] assms w show ?thesis
    by (auto simp: std_string_fields_def CONTENT_SIZE_def I8_SIZE_def round_up_def Let_def)
qed

lemma stored_bytes_frame_calls: "memory t = memory s \<Longrightarrow> stored_bytes t a n = stored_bytes s a n"
  by (simp add: stored_bytes_def)

lemma bytes_to_int_bounds: "0 \<le> bytes_to_int bs \<and> bytes_to_int bs < 256 ^ length bs"
proof (induction bs)
  case Nil
  then show ?case by simp
next
  case (Cons b bs)
  have "0 \<le> uint b" "uint b < 256" using uint_bounded [of b] by simp_all
  with Cons show ?case by simp
qed

lemma stored_bytes_length [simp]: "length (stored_bytes s a n) = nat n"
  by (simp add: stored_bytes_def)

lemma stored_usize_range:
  assumes "scalar_compute_size USize (config s) = Inr w" "stored_usize s a order = Inr v"
  shows "0 \<le> v \<and> v < 2 ^ nat (8 * w)"
proof -
  have w: "0 \<le> w" using USize_sizes [OF assms(1)] by auto
  have v: "v = bytes_to_int (in_order s order (stored_bytes s a w))"
    using assms by (simp add: stored_usize_eq)
  have "length (in_order s order (stored_bytes s a w)) = nat w" by simp
  with bytes_to_int_bounds [of "in_order s order (stored_bytes s a w)"]
  show ?thesis unfolding v pow_256 [OF w] by simp
qed

lemma sixteen_fits:
  assumes "scalar_compute_size USize cfg = Inr w"
  shows "(256::int) \<le> 2 ^ nat (8 * w)"
proof -
  have "1 \<le> w" using USize_sizes [OF assms] by auto
  then have "8 \<le> nat (8 * w)" by simp
  then have "(2::int) ^ 8 \<le> 2 ^ nat (8 * w)" by (intro power_increasing) simp_all
  then show ?thesis by simp
qed

lemma USize_bits: "scalar_compute_size USize cfg = Inr w \<Longrightarrow> bits cfg = 8 * w"
  by (auto simp: subscript_def U8_SIZE_def U16_SIZE_def U32_SIZE_def U64_SIZE_def split: if_splits)

lemma address_space_eq:
  "scalar_compute_size USize (config s) = Inr w \<Longrightarrow> address_space s = 2 ^ nat (8 * w)"
  using USize_bits [of "config s" w] by (simp add: address_space_def)

lemma allocate_eq:
  "0 \<le> next_block s \<Longrightarrow> 0 < n \<Longrightarrow> next_block s + n \<le> address_space s \<Longrightarrow>
   allocate s n
     = Inr (next_block s, s\<lparr>next_block := next_block s + n, calls := calls s @ [Allocate n]\<rparr>)"
  by (simp add: allocate_def)

lemma allocate_InrD:
  "allocate s n = Inr (block, s') \<Longrightarrow>
   block = next_block s \<and> 0 \<le> next_block s \<and> 0 < n \<and> next_block s + n \<le> address_space s
   \<and> s' = s\<lparr>next_block := next_block s + n, calls := calls s @ [Allocate n]\<rparr>"
  by (auto simp: allocate_def split: if_splits)

section \<open>The paths of \<^verbatim>\<open>std_string.set_value\<close>\<close>

text \<open>
  One lemma per path of \<^verbatim>\<open>set_value\<close>: what the call returns and what the fields
  hold afterwards, under the condition that selects the path.
\<close>

lemma std_string_set_value_inline_completes:
  assumes cfg: "std_string_fields (config s) = Inr content"
    and cap: "stored_usize s (address + capacity_offset content) order = Inr capacity"
    and enc: "encode v = Inr encoded"
    and small: "length encoded < 16"
    and more: "capacity < int (length encoded)"
  shows "\<exists>s'. std_string_set_value s address order v = Inr s'"
proof -
  let ?L = "int (length encoded)"
  from std_string_fields_InrD [OF cfg] obtain w where
    w: "scalar_compute_size USize (config s) = Inr w" and
    lay: "content_size content = 16" "length_offset content = 16" "capacity_offset content = 16 + w"
    by blast
  let ?s1 = "s\<lparr>calls := calls s @ [ReadAt (address + (16 + w)) w]\<rparr>"
  have rd: "read_usize s (address + (16 + w)) order = Inr (capacity, ?s1)"
    using cap w by (simp add: lay stored_usize_eq read_usize_eq)
  have w_s1: "scalar_compute_size USize (config ?s1) = Inr w" using w by simp
  have "?L < 16" using small by simp
  then have fit: "?L < 2 ^ nat (8 * w)" "(15::int) < 2 ^ nat (8 * w)"
    using sixteen_fits [OF w] by linarith+
  let ?s2 = "write_at ?s1 (address + 16) (in_order s order (int_to_bytes (nat w) ?L))"
  have w2: "write_usize ?s1 (address + 16) ?L order = Inr ?s2"
    using fit write_usize_eq [OF w_s1, of ?L "address + 16" order] by simp
  have w_s2: "scalar_compute_size USize (config ?s2) = Inr w" using w by simp
  have w3: "write_usize ?s2 (address + (16 + w)) 15 order
      = Inr (write_at ?s2 (address + (16 + w)) (in_order s order (int_to_bytes (nat w) 15)))"
    using fit write_usize_eq [OF w_s2, of 15 "address + (16 + w)" order] by simp
  show ?thesis
    using small more
    by (simp add: std_string_set_value_def cfg enc rd lay w2 w3 Let_def)
qed

lemma std_string_set_value_in_place_completes:
  assumes cfg: "std_string_fields (config s) = Inr content"
    and cap: "stored_usize s (address + capacity_offset content) order = Inr capacity"
    and enc: "encode v = Inr encoded"
    and fits: "int (length encoded) \<le> capacity"
  shows "\<exists>s'. std_string_set_value s address order v = Inr s'"
proof -
  let ?L = "int (length encoded)"
  from std_string_fields_InrD [OF cfg] obtain w where
    w: "scalar_compute_size USize (config s) = Inr w" and
    lay: "content_size content = 16" "length_offset content = 16" "capacity_offset content = 16 + w"
    by blast
  let ?s1 = "s\<lparr>calls := calls s @ [ReadAt (address + (16 + w)) w]\<rparr>"
  have rd: "read_usize s (address + (16 + w)) order = Inr (capacity, ?s1)"
    using cap w by (simp add: lay stored_usize_eq read_usize_eq)
  have w_s1: "scalar_compute_size USize (config ?s1) = Inr w" using w by simp
  have fit: "?L < 2 ^ nat (8 * w)"
    using stored_usize_range [OF w cap] fits by linarith
  let ?s2 = "write_at ?s1 (address + 16) (in_order s order (int_to_bytes (nat w) ?L))"
  have w2: "write_usize ?s1 (address + 16) ?L order = Inr ?s2"
    using fit write_usize_eq [OF w_s1, of ?L "address + 16" order] by simp
  have w_s2: "scalar_compute_size USize (config ?s2) = Inr w" using w by simp
  show ?thesis
    using fits
    by (simp add: std_string_set_value_def cfg enc rd lay w2 read_usize_eq [OF w_s2] Let_def)
qed

lemma read_usize_of_stored:
  "stored_usize s a order = Inr v \<Longrightarrow> scalar_compute_size USize (config s) = Inr w \<Longrightarrow>
   read_usize s a order = Inr (v, s\<lparr>calls := calls s @ [ReadAt a w]\<rparr>)"
  by (auto simp: stored_usize_def read_usize_def read_at_def split: sum.splits)

lemma std_string_set_value_heap:
  assumes cfg: "std_string_fields (config s) = Inr content"
    and cap: "stored_usize s (address + capacity_offset content) order = Inr capacity"
    and enc: "encode v = Inr encoded"
    and more: "capacity < int (length encoded)"
    and large: "16 \<le> length encoded"
    and cp: "closest_power_of_two (int (length encoded) + 1) = Inr rounded"
    and w: "scalar_compute_size USize (config s) = Inr w"
    and fit: "int (length encoded) < 2 ^ nat (8 * w)"
    and room: "0 \<le> next_block s" "1 \<le> rounded" "next_block s + rounded \<le> 2 ^ nat (8 * w)"
    and apart: "next_block s + int (length encoded) + 1 \<le> address
                \<or> address + capacity_offset content + w \<le> next_block s"
  shows "\<exists>s'. std_string_set_value s address order v = Inr s'
           \<and> stored_usize s' (address + length_offset content) order = Inr (int (length encoded))
           \<and> stored_usize s' (address + capacity_offset content) order = Inr (rounded - 1)
           \<and> stored_usize s' address order = Inr (next_block s)
           \<and> stored_bytes s' (next_block s) (int (length encoded) + 1) = encoded @ [0]
           \<and> allocations (calls s') = allocations (calls s) @ [rounded]"
proof -
  let ?L = "int (length encoded)"
  let ?data = "encoded @ [0]"
  let ?B = "\<lambda>x. in_order s order (int_to_bytes (nat w) x)"
  from std_string_fields_InrD [OF cfg] w have
    lay: "content_size content = 16" "length_offset content = 16" "capacity_offset content = 16 + w"
    by auto
  have wr: "1 \<le> w" "w \<le> 8" using USize_sizes [OF w] by auto
  have blk: "0 \<le> next_block s" "next_block s < 2 ^ nat (8 * w)"
    using room by linarith+
  have rnd: "1 \<le> rounded" "rounded \<le> 2 ^ nat (8 * w)"
    using room by linarith+
  define s1 where "s1 = s\<lparr>calls := calls s @ [ReadAt (address + (16 + w)) w]\<rparr>"
  have rd: "read_usize s (address + (16 + w)) order = Inr (capacity, s1)"
    using cap w by (simp add: lay stored_usize_eq read_usize_eq s1_def)
  have w_s1: "scalar_compute_size USize (config s1) = Inr w" using w by (simp add: s1_def)
  have o1: "in_order s1 order = in_order s order" by (simp add: s1_def fun_eq_iff)
  define s2 where "s2 = write_at s1 (address + 16) (?B ?L)"
  have w2: "write_usize s1 (address + 16) ?L order = Inr s2"
    using fit write_usize_eq [OF w_s1, of ?L "address + 16" order] by (simp add: s2_def o1)
  have o2: "in_order s2 order = in_order s order" by (simp add: s2_def o1 fun_eq_iff)
  define s3 where "s3 = s2\<lparr>next_block := next_block s2 + rounded, calls := calls s2 @ [Allocate rounded]\<rparr>"
  have nb: "next_block s2 = next_block s" by (simp add: s2_def s1_def)
  have sp: "address_space s2 = 2 ^ nat (8 * w)"
    using w by (intro address_space_eq) (simp add: s2_def s1_def)
  have al: "allocate s2 rounded = Inr (next_block s, s3)"
    using room allocate_eq [of s2 rounded] by (simp add: sp s3_def nb)
  have w_s3: "scalar_compute_size USize (config s3) = Inr w" using w by (simp add: s3_def s2_def s1_def)
  have o3: "in_order s3 order = in_order s order" by (simp add: s3_def o2 in_order_def fun_eq_iff s2_def s1_def)
  define s4 where "s4 = write_at s3 address (?B (next_block s))"
  have w4: "write_usize s3 address (next_block s) order = Inr s4"
    using blk write_usize_eq [OF w_s3, of "next_block s" address order] by (simp add: s4_def o3)
  have w_s4: "scalar_compute_size USize (config s4) = Inr w" using w_s3 by (simp add: s4_def)
  have o4: "in_order s4 order = in_order s order" by (simp add: s4_def o3 fun_eq_iff)
  define s5 where "s5 = write_at s4 (address + (16 + w)) (?B (rounded - 1))"
  have w5: "write_usize s4 (address + (16 + w)) (rounded - 1) order = Inr s5"
    using rnd write_usize_eq [OF w_s4, of "rounded - 1" "address + (16 + w)" order]
    by (simp add: s5_def o4)
  have w_s5: "scalar_compute_size USize (config s5) = Inr w" using w_s4 by (simp add: s5_def)
  have p4: "stored_usize s4 address order = Inr (next_block s)"
    using stored_usize_written [OF w_s3, of "next_block s" address order] blk
    by (simp add: s4_def o3)
  have p5: "stored_usize s5 address order = Inr (next_block s)"
    using stored_usize_write_at_other [OF w_s4, of address "address + (16 + w)" "?B (rounded - 1)" order]
      wr p4 by (simp add: s5_def)
  define s6 where "s6 = s5\<lparr>calls := calls s5 @ [ReadAt address w]\<rparr>"
  have r6: "read_usize s5 address order = Inr (next_block s, s6)"
    unfolding s6_def by (rule read_usize_of_stored [OF p5 w_s5])
  define s' where "s' = write_at s6 (next_block s) ?data"
  have res: "std_string_set_value s address order v = Inr s'"
    using more large cp [unfolded add.commute [of _ 1]]
    by (simp add: std_string_set_value_def cfg enc rd lay w2 al w4 w5 r6 Let_def NULL_BYTE_def s'_def)
  have w_s6: "scalar_compute_size USize (config s6) = Inr w" using w_s5 by (simp add: s6_def)
  have far: "next_block s + ?L + 1 \<le> address \<or> address + 16 + w + w \<le> next_block s"
    using apart by (simp add: lay)
  have cap5: "stored_usize s5 (address + (16 + w)) order = Inr (rounded - 1)"
    using stored_usize_written [OF w_s4, of "rounded - 1" "address + (16 + w)" order] rnd
    by (simp add: s5_def o4)
  have len2: "stored_usize s2 (address + 16) order = Inr ?L"
    using stored_usize_written [OF w_s1, of ?L "address + 16" order] fit by (simp add: s2_def o1)
  have len3: "stored_usize s3 (address + 16) order = Inr ?L"
    using len2 by (simp add: s3_def)
  have len4: "stored_usize s4 (address + 16) order = Inr ?L"
    using stored_usize_write_at_other [OF w_s3, of "address + 16" address "?B (next_block s)" order]
      wr len3 by (simp add: s4_def)
  have len5: "stored_usize s5 (address + 16) order = Inr ?L"
    using stored_usize_write_at_other [OF w_s4, of "address + 16" "address + (16 + w)" "?B (rounded - 1)" order]
      wr len4 by (simp add: s5_def)
  have f1: "stored_usize s' (address + 16) order = Inr ?L"
  proof -
    have "stored_usize s' (address + 16) order = stored_usize s6 (address + 16) order"
      unfolding s'_def using far wr by (intro stored_usize_write_at_other [OF w_s6]) auto
    then show ?thesis using len5 by (simp add: s6_def)
  qed
  have f2: "stored_usize s' (address + (16 + w)) order = Inr (rounded - 1)"
  proof -
    have "stored_usize s' (address + (16 + w)) order = stored_usize s6 (address + (16 + w)) order"
      unfolding s'_def using far wr by (intro stored_usize_write_at_other [OF w_s6]) auto
    then show ?thesis using cap5 by (simp add: s6_def)
  qed
  have f3: "stored_usize s' address order = Inr (next_block s)"
  proof -
    have "stored_usize s' address order = stored_usize s6 address order"
      unfolding s'_def using far wr by (intro stored_usize_write_at_other [OF w_s6]) auto
    then show ?thesis using p5 by (simp add: s6_def)
  qed
  have f4: "stored_bytes s' (next_block s) (?L + 1) = ?data"
    unfolding s'_def by (rule stored_bytes_write_at_same) simp
  have f5: "allocations (calls s') = allocations (calls s) @ [rounded]"
    by (simp add: s'_def s6_def s5_def s4_def s3_def s2_def s1_def)
  from res f1 f2 f3 f4 f5 show ?thesis unfolding lay by blast
qed

lemma std_string_set_value_in_place_heap:
  assumes cfg: "std_string_fields (config s) = Inr content"
    and cap: "stored_usize s (address + capacity_offset content) order = Inr capacity"
    and enc: "encode v = Inr encoded"
    and fits: "int (length encoded) \<le> capacity"
    and heap: "16 \<le> capacity"
    and ptr: "stored_usize s address order = Inr pointer"
    and w: "scalar_compute_size USize (config s) = Inr w"
    and apart: "pointer + int (length encoded) + 1 \<le> address
                \<or> address + capacity_offset content + w \<le> pointer"
  shows "\<exists>s'. std_string_set_value s address order v = Inr s'
           \<and> stored_usize s' (address + length_offset content) order = Inr (int (length encoded))
           \<and> stored_usize s' (address + capacity_offset content) order = Inr capacity
           \<and> stored_bytes s' address 16 = stored_bytes s address 16
           \<and> stored_bytes s' pointer (int (length encoded) + 1) = encoded @ [0]
           \<and> allocations (calls s') = allocations (calls s)"
proof -
  let ?L = "int (length encoded)"
  let ?data = "encoded @ [0]"
  let ?B = "\<lambda>x. in_order s order (int_to_bytes (nat w) x)"
  from std_string_fields_InrD [OF cfg] w have
    lay: "content_size content = 16" "length_offset content = 16" "capacity_offset content = 16 + w"
    by auto
  have wr: "1 \<le> w" "w \<le> 8" using USize_sizes [OF w] by auto
  define s1 where "s1 = s\<lparr>calls := calls s @ [ReadAt (address + (16 + w)) w]\<rparr>"
  have rd: "read_usize s (address + (16 + w)) order = Inr (capacity, s1)"
    using cap w by (simp add: lay stored_usize_eq read_usize_eq s1_def)
  have w_s1: "scalar_compute_size USize (config s1) = Inr w" using w by (simp add: s1_def)
  have o1: "in_order s1 order = in_order s order" by (simp add: s1_def fun_eq_iff)
  have fit: "?L < 2 ^ nat (8 * w)"
    using stored_usize_range [OF w cap] fits by linarith
  define s2 where "s2 = write_at s1 (address + 16) (?B ?L)"
  have w2: "write_usize s1 (address + 16) ?L order = Inr s2"
    using fit write_usize_eq [OF w_s1, of ?L "address + 16" order] by (simp add: s2_def o1)
  have w_s2: "scalar_compute_size USize (config s2) = Inr w" using w_s1 by (simp add: s2_def)
  have p2: "stored_usize s2 address order = Inr pointer"
  proof -
    have "stored_usize s2 address order = stored_usize s1 address order"
      unfolding s2_def using wr by (intro stored_usize_write_at_other [OF w_s1]) auto
    then show ?thesis using ptr by (simp add: s1_def)
  qed
  define s3 where "s3 = s2\<lparr>calls := calls s2 @ [ReadAt address w]\<rparr>"
  have r3: "read_usize s2 address order = Inr (pointer, s3)"
    unfolding s3_def by (rule read_usize_of_stored [OF p2 w_s2])
  define s' where "s' = write_at s3 pointer ?data"
  have res: "std_string_set_value s address order v = Inr s'"
    using fits heap
    by (simp add: std_string_set_value_def cfg enc rd lay w2 r3 Let_def NULL_BYTE_def s'_def)
  have w_s3: "scalar_compute_size USize (config s3) = Inr w" using w_s2 by (simp add: s3_def)
  have far: "pointer + ?L + 1 \<le> address \<or> address + 16 + w + w \<le> pointer"
    using apart by (simp add: lay)
  have len2: "stored_usize s2 (address + 16) order = Inr ?L"
    using stored_usize_written [OF w_s1, of ?L "address + 16" order] fit by (simp add: s2_def o1)
  have cap2: "stored_usize s2 (address + (16 + w)) order = Inr capacity"
  proof -
    have "stored_usize s2 (address + (16 + w)) order = stored_usize s1 (address + (16 + w)) order"
      unfolding s2_def using wr by (intro stored_usize_write_at_other [OF w_s1]) auto
    then show ?thesis using cap by (simp add: s1_def lay)
  qed
  have f1: "stored_usize s' (address + 16) order = Inr ?L"
  proof -
    have "stored_usize s' (address + 16) order = stored_usize s3 (address + 16) order"
      unfolding s'_def using far wr by (intro stored_usize_write_at_other [OF w_s3]) auto
    then show ?thesis using len2 by (simp add: s3_def)
  qed
  have f2: "stored_usize s' (address + (16 + w)) order = Inr capacity"
  proof -
    have "stored_usize s' (address + (16 + w)) order = stored_usize s3 (address + (16 + w)) order"
      unfolding s'_def using far wr by (intro stored_usize_write_at_other [OF w_s3]) auto
    then show ?thesis using cap2 by (simp add: s3_def)
  qed
  have f3: "stored_bytes s' address 16 = stored_bytes s address 16"
  proof -
    have "stored_bytes s' address 16 = stored_bytes s3 address 16"
      unfolding s'_def using far wr by (intro stored_bytes_write_at_other) auto
    also have "\<dots> = stored_bytes s2 address 16" by (simp add: s3_def)
    also have "\<dots> = stored_bytes s1 address 16"
      unfolding s2_def by (intro stored_bytes_write_at_other) auto
    finally show ?thesis by (simp add: s1_def)
  qed
  have f4: "stored_bytes s' pointer (?L + 1) = ?data"
    unfolding s'_def by (rule stored_bytes_write_at_same) simp
  have f5: "allocations (calls s') = allocations (calls s)"
    by (simp add: s'_def s3_def s2_def s1_def)
  from res f1 f2 f3 f4 f5 show ?thesis unfolding lay by blast
qed

lemma std_string_set_value_inline:
  assumes cfg: "std_string_fields (config s) = Inr content"
    and cap: "stored_usize s (address + capacity_offset content) order = Inr capacity"
    and enc: "encode v = Inr encoded"
    and small: "int (length encoded) < 16"
    and cases: "capacity < int (length encoded) \<or> capacity < 16"
  shows "\<exists>s'. std_string_set_value s address order v = Inr s'
           \<and> stored_usize s' (address + length_offset content) order = Inr (int (length encoded))
           \<and> stored_usize s' (address + capacity_offset content) order
               = Inr (if capacity < int (length encoded) then 15 else capacity)
           \<and> stored_bytes s' address (int (length encoded) + 1) = encoded @ [0]
           \<and> allocations (calls s') = allocations (calls s)"
proof -
  let ?L = "int (length encoded)"
  let ?data = "encoded @ [0]"
  from std_string_fields_InrD [OF cfg] obtain w where
    w: "scalar_compute_size USize (config s) = Inr w" and
    lay: "content_size content = 16" "length_offset content = 16" "capacity_offset content = 16 + w"
    by blast
  let ?B = "\<lambda>x. in_order s order (int_to_bytes (nat w) x)"
  have wr: "1 \<le> w" "w \<le> 8" using USize_sizes [OF w] by auto
  define s1 where "s1 = s\<lparr>calls := calls s @ [ReadAt (address + (16 + w)) w]\<rparr>"
  have rd: "read_usize s (address + (16 + w)) order = Inr (capacity, s1)"
    using cap w by (simp add: lay stored_usize_eq read_usize_eq s1_def)
  have w_s1: "scalar_compute_size USize (config s1) = Inr w" using w by (simp add: s1_def)
  have o1: "in_order s1 order = in_order s order" by (simp add: s1_def fun_eq_iff)
  have fit: "?L < 2 ^ nat (8 * w)" "(15::int) < 2 ^ nat (8 * w)"
    using sixteen_fits [OF w] small by linarith+
  define s2 where "s2 = write_at s1 (address + 16) (?B ?L)"
  have w2: "write_usize s1 (address + 16) ?L order = Inr s2"
    using fit write_usize_eq [OF w_s1, of ?L "address + 16" order] by (simp add: s2_def o1)
  have w_s2: "scalar_compute_size USize (config s2) = Inr w" using w_s1 by (simp add: s2_def)
  have o2: "in_order s2 order = in_order s order" by (simp add: s2_def o1 fun_eq_iff)
  have len2: "stored_usize s2 (address + 16) order = Inr ?L"
    using stored_usize_written [OF w_s1, of ?L "address + 16" order] fit by (simp add: s2_def o1)
  have cap2: "stored_usize s2 (address + (16 + w)) order = Inr capacity"
  proof -
    have "stored_usize s2 (address + (16 + w)) order = stored_usize s1 (address + (16 + w)) order"
      unfolding s2_def using wr by (intro stored_usize_write_at_other [OF w_s1]) auto
    then show ?thesis using cap by (simp add: s1_def lay)
  qed
  define s3 where "s3 = (if capacity < ?L then write_at s2 (address + (16 + w)) (?B 15) else s2)"
  have w3: "write_usize s2 (address + (16 + w)) 15 order = Inr (write_at s2 (address + (16 + w)) (?B 15))"
    using fit write_usize_eq [OF w_s2, of 15 "address + (16 + w)" order] by (simp add: o2)
  define s' where "s' = write_at s3 address ?data"
  have res: "std_string_set_value s address order v = Inr s'"
    using small cases
    by (auto simp: std_string_set_value_def cfg enc rd lay w2 w3 Let_def NULL_BYTE_def s'_def s3_def)
  have w_s3: "scalar_compute_size USize (config s3) = Inr w" using w_s2 by (simp add: s3_def)
  have len3: "stored_usize s3 (address + 16) order = Inr ?L"
  proof (cases "capacity < ?L")
    case True
    have "stored_usize (write_at s2 (address + (16 + w)) (?B 15)) (address + 16) order
            = stored_usize s2 (address + 16) order"
      using wr by (intro stored_usize_write_at_other [OF w_s2]) auto
    then show ?thesis using True len2 by (simp add: s3_def)
  next
    case False
    then show ?thesis using len2 by (simp add: s3_def)
  qed
  have cap3: "stored_usize s3 (address + (16 + w)) order = Inr (if capacity < ?L then 15 else capacity)"
  proof (cases "capacity < ?L")
    case True
    have "stored_usize (write_at s2 (address + (16 + w)) (?B 15)) (address + (16 + w)) order = Inr 15"
      using stored_usize_written [OF w_s2, of 15 "address + (16 + w)" order] fit by (simp add: o2)
    then show ?thesis using True by (simp add: s3_def)
  next
    case False
    then show ?thesis using cap2 by (simp add: s3_def)
  qed
  have f1: "stored_usize s' (address + 16) order = Inr ?L"
  proof -
    have "stored_usize s' (address + 16) order = stored_usize s3 (address + 16) order"
      unfolding s'_def using small wr by (intro stored_usize_write_at_other [OF w_s3]) auto
    then show ?thesis using len3 by simp
  qed
  have f2: "stored_usize s' (address + (16 + w)) order = Inr (if capacity < ?L then 15 else capacity)"
  proof -
    have "stored_usize s' (address + (16 + w)) order = stored_usize s3 (address + (16 + w)) order"
      unfolding s'_def using small wr by (intro stored_usize_write_at_other [OF w_s3]) auto
    then show ?thesis using cap3 by simp
  qed
  have f4: "stored_bytes s' address (?L + 1) = ?data"
    unfolding s'_def by (rule stored_bytes_write_at_same) simp
  have f5: "allocations (calls s') = allocations (calls s)"
    by (simp add: s'_def s3_def s2_def s1_def)
  from res f1 f2 f4 f5 show ?thesis unfolding lay by blast
qed

lemma std_string_set_value_heap_inv:
  assumes cfg: "std_string_fields (config s) = Inr content"
    and cap: "stored_usize s (address + capacity_offset content) order = Inr capacity"
    and enc: "encode v = Inr encoded"
    and ok: "std_string_set_value s address order v = Inr s'"
    and more: "capacity < int (length encoded)"
    and large: "16 \<le> int (length encoded)"
    and w: "scalar_compute_size USize (config s) = Inr w"
  shows "\<exists>rounded. closest_power_of_two (int (length encoded) + 1) = Inr rounded
           \<and> int (length encoded) < 2 ^ nat (8 * w)
           \<and> 0 \<le> next_block s \<and> 1 \<le> rounded
           \<and> next_block s + rounded \<le> 2 ^ nat (8 * w)"
proof -
  let ?L = "int (length encoded)"
  let ?data = "encoded @ [0]"
  from std_string_fields_InrD [OF cfg] w have
    lay: "content_size content = 16" "length_offset content = 16" "capacity_offset content = 16 + w"
    by auto
  define s1 where "s1 = s\<lparr>calls := calls s @ [ReadAt (address + (16 + w)) w]\<rparr>"
  have rd: "read_usize s (address + (16 + w)) order = Inr (capacity, s1)"
    using cap w by (simp add: lay stored_usize_eq read_usize_eq s1_def)
  have w_s1: "scalar_compute_size USize (config s1) = Inr w" using w by (simp add: s1_def)
  let ?rest = "\<lambda>s2.
       (case closest_power_of_two (1 + ?L) of
          Inl e \<Rightarrow> Inl e
        | Inr rounded \<Rightarrow>
       (case allocate s2 rounded of
          Inl e \<Rightarrow> Inl e
        | Inr (block, s3) \<Rightarrow>
       (case write_usize s3 address block order of
          Inl e \<Rightarrow> Inl e
        | Inr s4 \<Rightarrow>
       (case write_usize s4 (address + (16 + w)) (rounded - 1) order of
          Inl e \<Rightarrow> Inl e
        | Inr s5 \<Rightarrow>
       (case read_usize s5 address order of
          Inl e \<Rightarrow> Inl e
        | Inr (pointer, s6) \<Rightarrow> Inr (write_at s6 pointer ?data))))))"
  have unf: "std_string_set_value s address order v =
      (case write_usize s1 (address + 16) ?L order of Inl e \<Rightarrow> Inl e | Inr s2 \<Rightarrow> ?rest s2)"
    using more large
    by (simp add: std_string_set_value_def cfg enc rd lay NULL_BYTE_def Let_def
        cong: sum.case_cong prod.case_cong if_cong)
  obtain s2 where
    w2: "write_usize s1 (address + 16) ?L order = Inr s2" and
    rest: "?rest s2 = Inr s'"
  proof (cases "write_usize s1 (address + 16) ?L order")
    case (Inl e)
    with ok unf show ?thesis by simp
  next
    case (Inr s2)
    with ok unf that show ?thesis by simp
  qed
  from write_usize_InrD [OF w2] w_s1 have
    fit: "?L < 2 ^ nat (8 * w)" and
    s2: "s2 = write_at s1 (address + 16) (in_order s1 order (int_to_bytes (nat w) ?L))"
    by auto
  from rest obtain rounded block s3 where
    cp: "closest_power_of_two (1 + ?L) = Inr rounded" and
    al: "allocate s2 rounded = Inr (block, s3)"
    by (auto split: sum.splits prod.splits)
  have sp: "address_space s2 = 2 ^ nat (8 * w)"
    using w by (intro address_space_eq) (simp add: s2 s1_def)
  have nb: "next_block s2 = next_block s" by (simp add: s2 s1_def)
  from allocate_InrD [OF al] have
    room: "0 \<le> next_block s" "1 \<le> rounded" "next_block s + rounded \<le> 2 ^ nat (8 * w)"
    by (simp_all add: sp nb)
  from cp fit room show ?thesis by (auto simp: add.commute)
qed

lemma std_string_set_value_in_place_heap_memory:
  assumes cfg: "std_string_fields (config s) = Inr content"
    and cap: "stored_usize s (address + capacity_offset content) order = Inr capacity"
    and enc: "encode v = Inr encoded"
    and fits: "int (length encoded) \<le> capacity"
    and heap: "16 \<le> capacity"
    and ptr: "stored_usize s address order = Inr pointer"
    and w: "scalar_compute_size USize (config s) = Inr w"
  shows "\<exists>s'. std_string_set_value s address order v = Inr s'
           \<and> config s' = config s \<and> big_endian s' = big_endian s
           \<and> memory s' =
               (\<lambda>x. if pointer \<le> x \<and> x < pointer + int (length (encoded @ [0]))
                    then (encoded @ [0]) ! nat (x - pointer)
                    else if address + 16 \<le> x \<and> x < address + 16 + w
                    then in_order s order (int_to_bytes (nat w) (int (length encoded)))
                           ! nat (x - (address + 16))
                    else memory s x)"
proof -
  let ?L = "int (length encoded)"
  let ?data = "encoded @ [0]"
  let ?B = "\<lambda>x. in_order s order (int_to_bytes (nat w) x)"
  from std_string_fields_InrD [OF cfg] w have
    lay: "content_size content = 16" "length_offset content = 16" "capacity_offset content = 16 + w"
    by auto
  have wr: "1 \<le> w" "w \<le> 8" using USize_sizes [OF w] by auto
  define s1 where "s1 = s\<lparr>calls := calls s @ [ReadAt (address + (16 + w)) w]\<rparr>"
  have rd: "read_usize s (address + (16 + w)) order = Inr (capacity, s1)"
    using cap w by (simp add: lay stored_usize_eq read_usize_eq s1_def)
  have w_s1: "scalar_compute_size USize (config s1) = Inr w" using w by (simp add: s1_def)
  have o1: "in_order s1 order = in_order s order" by (simp add: s1_def fun_eq_iff)
  have fit: "?L < 2 ^ nat (8 * w)"
    using stored_usize_range [OF w cap] fits by linarith
  define s2 where "s2 = write_at s1 (address + 16) (?B ?L)"
  have w2: "write_usize s1 (address + 16) ?L order = Inr s2"
    using fit write_usize_eq [OF w_s1, of ?L "address + 16" order] by (simp add: s2_def o1)
  have w_s2: "scalar_compute_size USize (config s2) = Inr w" using w_s1 by (simp add: s2_def)
  have p2: "stored_usize s2 address order = Inr pointer"
  proof -
    have "stored_usize s2 address order = stored_usize s1 address order"
      unfolding s2_def using wr by (intro stored_usize_write_at_other [OF w_s1]) auto
    then show ?thesis using ptr by (simp add: s1_def)
  qed
  define s3 where "s3 = s2\<lparr>calls := calls s2 @ [ReadAt address w]\<rparr>"
  have r3: "read_usize s2 address order = Inr (pointer, s3)"
    unfolding s3_def by (rule read_usize_of_stored [OF p2 w_s2])
  define s' where "s' = write_at s3 pointer ?data"
  have res: "std_string_set_value s address order v = Inr s'"
    using fits heap
    by (simp add: std_string_set_value_def cfg enc rd lay w2 r3 Let_def NULL_BYTE_def s'_def)
  have c: "config s' = config s" "big_endian s' = big_endian s"
    by (simp_all add: s'_def s3_def s2_def s1_def)
  have m: "memory s' =
               (\<lambda>x. if pointer \<le> x \<and> x < pointer + int (length ?data)
                    then ?data ! nat (x - pointer)
                    else if address + 16 \<le> x \<and> x < address + 16 + w
                    then ?B ?L ! nat (x - (address + 16))
                    else memory s x)"
    using wr by (simp add: s'_def s3_def s2_def s1_def write_at_def fun_eq_iff)
  from res c m show ?thesis by blast
qed

section \<open>Facts about the sample states\<close>

lemma encode_replicate_ascii:
  "c < 128 \<Longrightarrow> encode (replicate n c) = Inr (replicate n (of_nat c))"
  by (induction n) (simp_all add: encode_char_def)

lemma USize_blank: "scalar_compute_size USize (config blank) = Inr 8"
  by (simp add: blank_def subscript_def U64_SIZE_def)

lemma fields_blank:
  "std_string_fields (config blank)
     = Inr \<lparr>content_size = 16, length_offset = 16, capacity_offset = 24\<rparr>"
  by (simp add: blank_def std_string_fields_def subscript_def U64_SIZE_def I8_SIZE_def
      CONTENT_SIZE_def round_up_def)

lemma config_heap_string: "config heap_string = config blank"
  by (simp add: heap_string_def)

lemma upt_8: "[0..<8] = [0, 1, 2, 3, 4, 5, 6, 7]"
  by (simp add: upt_rec)

lemma stored_usize_blank: "stored_usize blank a LITTLE = Inr 0"
  by (simp add: stored_usize_eq [OF USize_blank] stored_bytes_def in_order_def upt_8)
     (simp add: blank_def)

lemma capacity_heap_string: "stored_usize heap_string 24 LITTLE = Inr 31"
  using USize_blank
  by (simp add: stored_usize_def read_usize_def read_at_def heap_string_def stored_bytes_def
      in_order_def upt_8)

lemma pointer_heap_string: "stored_usize heap_string 0 LITTLE = Inr 4096"
  using USize_blank
  by (simp add: stored_usize_def read_usize_def read_at_def heap_string_def stored_bytes_def
      in_order_def upt_8)

lemma upt_3: "[0..<3] = [0, 1, 2]"
  by (simp add: upt_rec)

lemma inline_heap_string: "stored_bytes heap_string 0 3 = [0, 16, 0]"
  by (simp add: heap_string_def stored_bytes_def upt_3)

lemma stored_bytes_take: "0 \<le> n \<Longrightarrow> n \<le> m \<Longrightarrow> take (nat n) (stored_bytes s a m) = stored_bytes s a n"
  by (simp add: stored_bytes_def take_map)

lemma calls_blank: "calls blank = []" "calls heap_string = []"
  by (simp_all add: blank_def heap_string_def)

lemma next_block_blank: "next_block blank = 4096"
  by (simp add: blank_def)

lemma encode_hi: "encode [0x68, 0x69] = Inr [0x68, 0x69]"
  by (simp add: encode_char_def)

lemma closest_power_of_two_21: "closest_power_of_two 21 = Inr 32"
  using closest_power_of_two_eval [of 21 21 4] log2_threshold_small [of 4]
  by (simp add: float_of_int_exact)

lemma config_invalid_string: "config invalid_string = config blank"
  by (simp add: invalid_string_def)

lemma int_to_bytes_8:
  "int_to_bytes 8 v
     = [word_of_int v, word_of_int (v div 256), word_of_int (v div 256 div 256),
        word_of_int (v div 256 div 256 div 256), word_of_int (v div 256 div 256 div 256 div 256),
        word_of_int (v div 256 div 256 div 256 div 256 div 256),
        word_of_int (v div 256 div 256 div 256 div 256 div 256 div 256),
        word_of_int (v div 256 div 256 div 256 div 256 div 256 div 256 div 256)]"
  by (simp add: eval_nat_numeral)

lemma std_string_length_overwritten:
  "(case std_string_set_value self_pointing 0 LITTLE [0x68, 0x69] of
      Inl e \<Rightarrow> False
    | Inr s' \<Rightarrow> stored_usize s' 16 LITTLE = Inr 26984)"
proof -
  let ?lay = "\<lparr>content_size = 16, length_offset = 16, capacity_offset = 24\<rparr>"
  have c: "config self_pointing = config blank" by (simp add: self_pointing_def)
  have cfg: "std_string_fields (config self_pointing) = Inr ?lay"
    by (simp add: c fields_blank)
  have w: "scalar_compute_size USize (config self_pointing) = Inr 8"
    by (simp only: c USize_blank)
  have mem: "memory self_pointing = (\<lambda>x. if x = 0 then 16 else if x = 24 then 31 else 0)"
    by (simp add: self_pointing_def)
  have big: "big_endian self_pointing = False" by (simp add: self_pointing_def blank_def)
  have cap: "stored_usize self_pointing (0 + capacity_offset ?lay) LITTLE = Inr 31"
    by (simp add: stored_usize_eq [OF w] stored_bytes_def in_order_def upt_8 mem)
  have ptr: "stored_usize self_pointing 0 LITTLE = Inr 16"
    by (simp add: stored_usize_eq [OF w] stored_bytes_def in_order_def upt_8 mem)
  have fits: "int (length ([0x68, 0x69] :: bytes)) \<le> 31" "(16::int) \<le> 31" by simp_all
  from std_string_set_value_in_place_heap_memory [OF cfg cap encode_hi fits ptr w]
  obtain s' where ok: "std_string_set_value self_pointing 0 LITTLE [0x68, 0x69] = Inr s'"
    and c': "config s' = config self_pointing"
    and m: "memory s' =
               (\<lambda>x. if 16 \<le> x \<and> x < 16 + int (length ([0x68, 0x69] @ [0] :: bytes))
                    then ([0x68, 0x69] @ [0] :: bytes) ! nat (x - 16)
                    else if 0 + 16 \<le> x \<and> x < 0 + 16 + 8
                    then in_order self_pointing LITTLE
                           (int_to_bytes (nat 8) (int (length ([0x68, 0x69] :: bytes))))
                           ! nat (x - (0 + 16))
                    else memory self_pointing x)"
    by blast
  have w': "scalar_compute_size USize (config s') = Inr 8" using w c' by simp
  have "stored_usize s' 16 LITTLE = Inr 26984"
    by (simp add: stored_usize_eq [OF w'] stored_bytes_def in_order_def upt_8 m int_to_bytes_8)
  then show ?thesis by (simp add: ok)
qed

section \<open>Writing a \<^verbatim>\<open>std_string\<close>\<close>

text \<open>
  C1 (as amended). Let \<^verbatim>\<open>set_value\<close> complete on a state and a string whose encoding
  has \<open>L\<close> bytes, and let \<open>c\<close> be the capacity field before the call.
  \<^item> If \<open>c < L < 16\<close>, the bytes and the terminator are stored in the inline buffer,
    the capacity field holds 15 afterwards and \<^verbatim>\<open>allocate\<close> is not called.
  \<^item> If \<open>c < L\<close> and \<open>16 \<le> L\<close>, \<^verbatim>\<open>allocate\<close> is called exactly once, with
    \<^verbatim>\<open>closest_power_of_two(L + 1)\<close>, which for \<open>L + 1 \<le> 2 ^ 48\<close> is the smallest power
    of two not below \<open>L + 1\<close>.
  \<^item> If \<open>L \<le> c\<close>, \<^verbatim>\<open>allocate\<close> is not called. For \<open>c < 16\<close> the bytes go to the
    inline buffer and the capacity field still holds \<open>c\<close>. For \<open>16 \<le> c\<close> the
    calls are the read of the capacity, the write of the length, the read of the
    heap pointer and the write of the bytes at the address the pointer holds; the
    capacity field still holds \<open>c\<close> when the bytes written there do not overlap
    the string object (they are written wherever the pointer points, also over the
    capacity field itself).
\<close>

theorem std_string_set_value_cases:
  assumes cfg: "std_string_fields (config s) = Inr content"
    and cap: "stored_usize s (address + capacity_offset content) order = Inr capacity"
    and enc: "encode v = Inr encoded"
    and ok: "std_string_set_value s address order v = Inr s'"
    and w: "scalar_compute_size USize (config s) = Inr w"
  shows "(capacity < int (length encoded) \<and> length encoded < 16 \<longrightarrow>
            stored_bytes s' address (int (length encoded) + 1) = encoded @ [0]
            \<and> stored_usize s' (address + capacity_offset content) order = Inr 15
            \<and> allocations (calls s') = allocations (calls s))
       \<and> (capacity < int (length encoded) \<and> 16 \<le> length encoded \<longrightarrow>
            (\<exists>rounded. closest_power_of_two (int (length encoded) + 1) = Inr rounded
               \<and> allocations (calls s') = allocations (calls s) @ [rounded]
               \<and> (int (length encoded) + 1 \<le> 2 ^ 48 \<longrightarrow>
                    (\<exists>k. rounded = 2 ^ k \<and> int (length encoded) + 1 \<le> 2 ^ k
                       \<and> (\<forall>j. int (length encoded) + 1 \<le> 2 ^ j \<longrightarrow> k \<le> j)))))
       \<and> (int (length encoded) \<le> capacity \<longrightarrow>
            allocations (calls s') = allocations (calls s)
            \<and> (capacity < 16 \<longrightarrow>
                  stored_bytes s' address (int (length encoded) + 1) = encoded @ [0]
                  \<and> stored_usize s' (address + capacity_offset content) order = Inr capacity)
            \<and> (16 \<le> capacity \<longrightarrow>
                  (\<exists>pointer. stored_usize s address order = Inr pointer
                     \<and> stored_bytes s' pointer (int (length encoded) + 1) = encoded @ [0]
                     \<and> calls s' = calls s @
                          [ReadAt (address + capacity_offset content) w,
                           WriteAt (address + length_offset content)
                             (in_order s order (int_to_bytes (nat w) (int (length encoded)))),
                           ReadAt address w,
                           WriteAt pointer (encoded @ [0])]
                     \<and> (pointer + int (length encoded) + 1 \<le> address
                          \<or> address + capacity_offset content + w \<le> pointer \<longrightarrow>
                            stored_usize s' (address + capacity_offset content) order
                              = Inr capacity))))"
proof -
  let ?L = "int (length encoded)"
  let ?data = "encoded @ [0]"
  from std_string_fields_InrD [OF cfg] w have
    lay: "content_size content = 16" "length_offset content = 16" "capacity_offset content = 16 + w"
    by auto
  have wpos: "1 \<le> w" "w \<le> 8" using USize_sizes [OF w] by auto
  let ?s1 = "s\<lparr>calls := calls s @ [ReadAt (address + (16 + w)) w]\<rparr>"
  have rd: "read_usize s (address + (16 + w)) order = Inr (capacity, ?s1)"
    using cap w by (simp add: lay stored_usize_eq read_usize_eq)
  let ?rest = "\<lambda>s2.
         (if ?L > capacity then
            if ?L < 16 then
              (case write_usize s2 (address + (16 + w)) 15 order of
                 Inl e \<Rightarrow> Inl e
               | Inr s3 \<Rightarrow> Inr (write_at s3 address ?data))
            else
              (case closest_power_of_two (1 + ?L) of
                 Inl e \<Rightarrow> Inl e
               | Inr rounded \<Rightarrow>
              (case allocate s2 rounded of
                 Inl e \<Rightarrow> Inl e
               | Inr (block, s3) \<Rightarrow>
              (case write_usize s3 address block order of
                 Inl e \<Rightarrow> Inl e
               | Inr s4 \<Rightarrow>
              (case write_usize s4 (address + (16 + w)) (rounded - 1) order of
                 Inl e \<Rightarrow> Inl e
               | Inr s5 \<Rightarrow>
              (case read_usize s5 address order of
                 Inl e \<Rightarrow> Inl e
               | Inr (pointer, s6) \<Rightarrow> Inr (write_at s6 pointer ?data))))))
          else if capacity < 16 then Inr (write_at s2 address ?data)
          else
            (case read_usize s2 address order of
               Inl e \<Rightarrow> Inl e
             | Inr (pointer, s3) \<Rightarrow> Inr (write_at s3 pointer ?data)))"
  have unf: "std_string_set_value s address order v =
      (case write_usize ?s1 (address + 16) ?L order of Inl e \<Rightarrow> Inl e | Inr s2 \<Rightarrow> ?rest s2)"
    by (simp add: std_string_set_value_def cfg enc rd lay NULL_BYTE_def Let_def cong: sum.case_cong prod.case_cong if_cong)
  obtain s2 where
    w2: "write_usize ?s1 (address + 16) ?L order = Inr s2" and
    rest: "?rest s2 = Inr s'"
  proof (cases "write_usize ?s1 (address + 16) ?L order")
    case (Inl e)
    with ok unf show ?thesis by simp
  next
    case (Inr s2)
    with ok unf that show ?thesis by simp
  qed
  from write_usize_InrD [OF w2] w have
    Lfit: "?L < 2 ^ nat (8 * w)" and
    s2: "s2 = write_at ?s1 (address + 16) (in_order s order (int_to_bytes (nat w) ?L))"
    by auto
  have w_s1: "scalar_compute_size USize (config ?s1) = Inr w" using w by simp
  have w_s2: "scalar_compute_size USize (config s2) = Inr w" using w by (simp add: s2)
  have calls_s2: "calls s2 = calls s @ [ReadAt (address + (16 + w)) w,
      WriteAt (address + 16) (in_order s order (int_to_bytes (nat w) ?L))]"
    by (simp add: s2)
  show ?thesis
  proof (intro conjI impI)
    assume a: "capacity < ?L \<and> length encoded < 16"
    with rest obtain s3 where
      w3: "write_usize s2 (address + (16 + w)) 15 order = Inr s3" and
      s': "s' = write_at s3 address ?data"
      by (auto split: sum.splits)
    from write_usize_InrD [OF w3] w_s2 have
      s3: "s3 = write_at s2 (address + (16 + w)) (in_order s2 order (int_to_bytes (nat w) 15))"
      and fit15: "15 < (2::int) ^ nat (8 * w)"
      by auto
    show "stored_bytes s' address (?L + 1) = ?data"
      unfolding s' by (rule stored_bytes_write_at_same) simp
    have w_s3: "scalar_compute_size USize (config s3) = Inr w" using w_s2 by (simp add: s3)
    have "stored_usize s' (address + capacity_offset content) order
            = stored_usize s3 (address + (16 + w)) order"
      unfolding s' lay using a wpos by (intro stored_usize_write_at_other [OF w_s3]) simp
    also have "\<dots> = Inr 15"
      unfolding s3 using fit15 by (intro stored_usize_written [OF w_s2]) simp_all
    finally show "stored_usize s' (address + capacity_offset content) order = Inr 15" .
    show "allocations (calls s') = allocations (calls s)"
      by (simp add: s' s3 calls_s2)
  next
    assume a: "capacity < ?L \<and> 16 \<le> length encoded"
    with rest obtain rounded block s3 s4 s5 pointer s6 where
      cp: "closest_power_of_two (1 + ?L) = Inr rounded" and
      al: "allocate s2 rounded = Inr (block, s3)" and
      w4: "write_usize s3 address block order = Inr s4" and
      w5: "write_usize s4 (address + (16 + w)) (rounded - 1) order = Inr s5" and
      r6: "read_usize s5 address order = Inr (pointer, s6)" and
      s': "s' = write_at s6 pointer ?data"
      by (auto split: sum.splits prod.splits)
    have c3: "calls s3 = calls s2 @ [Allocate rounded]" using allocate_InrD [OF al] by simp
    from write_usize_InrD [OF w4] have c4: "allocations (calls s4) = allocations (calls s3)" by auto
    from write_usize_InrD [OF w5] have c5: "allocations (calls s5) = allocations (calls s4)" by auto
    from read_usize_stored [OF r6] have c6: "allocations (calls s6) = allocations (calls s5)" by auto
    have allocs: "allocations (calls s') = allocations (calls s) @ [rounded]"
      by (simp add: s' c6 c5 c4 c3 calls_s2)
    have small: "?L + 1 \<le> 2 ^ 48 \<longrightarrow>
        (\<exists>k. rounded = 2 ^ k \<and> ?L + 1 \<le> 2 ^ k \<and> (\<forall>j. ?L + 1 \<le> 2 ^ j \<longrightarrow> k \<le> j))"
    proof
      assume "?L + 1 \<le> 2 ^ 48"
      from closest_power_of_two_small [OF _ this] cp [unfolded add.commute [of 1]] show
        "\<exists>k. rounded = 2 ^ k \<and> ?L + 1 \<le> 2 ^ k \<and> (\<forall>j. ?L + 1 \<le> 2 ^ j \<longrightarrow> k \<le> j)"
        by auto
    qed
    show "\<exists>rounded. closest_power_of_two (?L + 1) = Inr rounded
               \<and> allocations (calls s') = allocations (calls s) @ [rounded]
               \<and> (?L + 1 \<le> 2 ^ 48 \<longrightarrow>
                    (\<exists>k. rounded = 2 ^ k \<and> ?L + 1 \<le> 2 ^ k
                       \<and> (\<forall>j. ?L + 1 \<le> 2 ^ j \<longrightarrow> k \<le> j)))"
      using cp [unfolded add.commute [of 1]] allocs small by blast
  next
    assume a: "?L \<le> capacity"
    show "allocations (calls s') = allocations (calls s)"
      using rest a calls_s2
      by (auto split: if_splits sum.splits dest!: read_usize_stored)
  next
    assume a: "?L \<le> capacity" and b: "capacity < 16"
    with rest have s': "s' = write_at s2 address ?data" by simp
    show "stored_bytes s' address (?L + 1) = ?data"
      unfolding s' by (rule stored_bytes_write_at_same) simp
    have "stored_usize s' (address + capacity_offset content) order
            = stored_usize s2 (address + (16 + w)) order"
      unfolding s' lay using a b wpos by (intro stored_usize_write_at_other [OF w_s2]) simp
    also have "\<dots> = stored_usize ?s1 (address + (16 + w)) order"
      unfolding s2 using wpos by (intro stored_usize_write_at_other [OF w_s1]) simp
    also have "\<dots> = Inr capacity" using cap by (simp add: lay)
    finally show "stored_usize s' (address + capacity_offset content) order = Inr capacity" .
  next
    assume a: "?L \<le> capacity" and b: "16 \<le> capacity"
    with rest obtain pointer s3 where
      r3: "read_usize s2 address order = Inr (pointer, s3)" and
      s': "s' = write_at s3 pointer ?data"
      by (auto split: sum.splits)
    from read_usize_stored [OF r3] w_s2 have
      p2: "stored_usize s2 address order = Inr pointer" and
      s3: "s3 = s2\<lparr>calls := calls s2 @ [ReadAt address w]\<rparr>"
      by auto
    have "stored_usize s2 address order = stored_usize ?s1 address order"
      unfolding s2 using wpos by (intro stored_usize_write_at_other [OF w_s1]) simp
    with p2 have p: "stored_usize s address order = Inr pointer" by simp
    have d: "stored_bytes s' pointer (?L + 1) = ?data"
      unfolding s' by (rule stored_bytes_write_at_same) simp
    have c: "calls s' = calls s @
                          [ReadAt (address + capacity_offset content) w,
                           WriteAt (address + length_offset content)
                             (in_order s order (int_to_bytes (nat w) ?L)),
                           ReadAt address w,
                           WriteAt pointer ?data]"
      by (simp add: s' s3 calls_s2 lay)
    have k: "pointer + ?L + 1 \<le> address \<or> address + capacity_offset content + w \<le> pointer \<longrightarrow>
               stored_usize s' (address + capacity_offset content) order = Inr capacity"
    proof
      assume apart: "pointer + ?L + 1 \<le> address \<or> address + capacity_offset content + w \<le> pointer"
      from std_string_set_value_in_place_heap [OF cfg cap enc a b p w apart] ok
      show "stored_usize s' (address + capacity_offset content) order = Inr capacity" by auto
    qed
    from p d c k show "\<exists>pointer. stored_usize s address order = Inr pointer
                     \<and> stored_bytes s' pointer (?L + 1) = ?data
                     \<and> calls s' = calls s @
                          [ReadAt (address + capacity_offset content) w,
                           WriteAt (address + length_offset content)
                             (in_order s order (int_to_bytes (nat w) ?L)),
                           ReadAt address w,
                           WriteAt pointer ?data]
                     \<and> (pointer + ?L + 1 \<le> address
                          \<or> address + capacity_offset content + w \<le> pointer \<longrightarrow>
                            stored_usize s' (address + capacity_offset content) order
                              = Inr capacity)"
      by blast
  qed
qed

text \<open>
  The three cases at concrete inputs: a two-byte string written to the empty string
  of \<open>blank\<close>; a twenty-byte string written there, which allocates 32 bytes; a
  two-byte string written to \<open>heap_string\<close>, which goes to the heap buffer at 4096
  and leaves the capacity at 31.
\<close>

theorem std_string_set_value_cases_witness:
  "(case std_string_set_value blank 0 LITTLE [0x68, 0x69] of
      Inl e \<Rightarrow> False
    | Inr s' \<Rightarrow> stored_bytes s' 0 3 = [0x68, 0x69, 0] \<and> stored_usize s' 24 LITTLE = Inr 15
               \<and> allocations (calls s') = [])
   \<and> (case std_string_set_value blank 0 LITTLE (replicate 20 0x61) of
         Inl e \<Rightarrow> False
       | Inr s' \<Rightarrow> allocations (calls s') = [32])
   \<and> (case std_string_set_value heap_string 0 LITTLE [0x68, 0x69] of
         Inl e \<Rightarrow> False
       | Inr s' \<Rightarrow> stored_bytes s' 4096 3 = [0x68, 0x69, 0] \<and> allocations (calls s') = []
                  \<and> stored_usize s' 24 LITTLE = Inr 31)"
proof (intro conjI)
  let ?lay = "\<lparr>content_size = 16, length_offset = 16, capacity_offset = 24\<rparr>"
  have cap: "stored_usize blank (0 + capacity_offset ?lay) LITTLE = Inr 0"
    by (simp add: stored_usize_blank)
  from std_string_set_value_inline_completes [OF fields_blank cap encode_hi]
  obtain s' where ok: "std_string_set_value blank 0 LITTLE [0x68, 0x69] = Inr s'" by auto
  from std_string_set_value_cases [OF fields_blank cap encode_hi ok USize_blank]
  have "stored_bytes s' 0 3 = [0x68, 0x69, 0] \<and> stored_usize s' 24 LITTLE = Inr 15
        \<and> allocations (calls s') = []"
    by (simp add: calls_blank)
  then show "case std_string_set_value blank 0 LITTLE [0x68, 0x69] of
      Inl e \<Rightarrow> False
    | Inr s' \<Rightarrow> stored_bytes s' 0 3 = [0x68, 0x69, 0] \<and> stored_usize s' 24 LITTLE = Inr 15
               \<and> allocations (calls s') = []"
    by (simp add: ok)
next
  let ?lay = "\<lparr>content_size = 16, length_offset = 16, capacity_offset = 24\<rparr>"
  have cap: "stored_usize blank (0 + capacity_offset ?lay) LITTLE = Inr 0"
    by (simp add: stored_usize_blank)
  have enc: "encode (replicate 20 0x61) = Inr (replicate 20 0x61)"
    using encode_replicate_ascii [of "0x61" 20] by simp
  from std_string_set_value_heap [OF fields_blank cap enc _ _ _ USize_blank, of 32]
  obtain s' where ok: "std_string_set_value blank 0 LITTLE (replicate 20 0x61) = Inr s'"
    by (auto simp: closest_power_of_two_21 next_block_blank)
  from std_string_set_value_cases [OF fields_blank cap enc ok USize_blank]
  have "allocations (calls s') = [32]"
    by (simp add: calls_blank closest_power_of_two_21)
  then show "case std_string_set_value blank 0 LITTLE (replicate 20 0x61) of
         Inl e \<Rightarrow> False
       | Inr s' \<Rightarrow> allocations (calls s') = [32]"
    by (simp add: ok)
next
  let ?lay = "\<lparr>content_size = 16, length_offset = 16, capacity_offset = 24\<rparr>"
  have cfg: "std_string_fields (config heap_string) = Inr ?lay"
    by (simp add: config_heap_string fields_blank)
  have cap: "stored_usize heap_string (0 + capacity_offset ?lay) LITTLE = Inr 31"
    by (simp add: capacity_heap_string)
  from std_string_set_value_in_place_completes [OF cfg cap encode_hi]
  obtain s' where ok: "std_string_set_value heap_string 0 LITTLE [0x68, 0x69] = Inr s'" by auto
  have w: "scalar_compute_size USize (config heap_string) = Inr 8"
    by (simp only: config_heap_string USize_blank)
  from std_string_set_value_cases [OF cfg cap encode_hi ok w]
  have "stored_bytes s' 4096 3 = [0x68, 0x69, 0] \<and> allocations (calls s') = []
        \<and> stored_usize s' 24 LITTLE = Inr 31"
    by (auto simp: calls_blank pointer_heap_string)
  then show "case std_string_set_value heap_string 0 LITTLE [0x68, 0x69] of
         Inl e \<Rightarrow> False
       | Inr s' \<Rightarrow> stored_bytes s' 4096 3 = [0x68, 0x69, 0] \<and> allocations (calls s') = []
                  \<and> stored_usize s' 24 LITTLE = Inr 31"
    by (simp add: ok)
qed

text \<open>
  C1 as stated fails on \<open>heap_string\<close>. A two-byte string is shorter than 16 bytes,
  yet the capacity field holds 31 afterwards, not 15, and the inline buffer still
  holds the bytes of the heap pointer, not the string. A twenty-byte string has
  \<open>L \<ge> 16\<close>, yet \<^verbatim>\<open>allocate\<close> is not called.
\<close>

theorem std_string_set_value_counterexample:
  "(case std_string_set_value heap_string 0 LITTLE [0x68, 0x69] of
      Inl e \<Rightarrow> False
    | Inr s' \<Rightarrow> stored_usize s' 24 LITTLE = Inr 31 \<and> stored_bytes s' 0 3 = [0, 16, 0])
   \<and> (case std_string_set_value heap_string 0 LITTLE (replicate 20 0x61) of
         Inl e \<Rightarrow> False
       | Inr s' \<Rightarrow> allocations (calls s') = [])"
proof (intro conjI)
  let ?lay = "\<lparr>content_size = 16, length_offset = 16, capacity_offset = 24\<rparr>"
  have cfg: "std_string_fields (config heap_string) = Inr ?lay"
    by (simp add: config_heap_string fields_blank)
  have cap: "stored_usize heap_string (0 + capacity_offset ?lay) LITTLE = Inr 31"
    by (simp add: capacity_heap_string)
  have w: "scalar_compute_size USize (config heap_string) = Inr 8"
    by (simp only: config_heap_string USize_blank)
  from std_string_set_value_in_place_heap [OF cfg cap encode_hi _ _ pointer_heap_string w]
  obtain s' where ok: "std_string_set_value heap_string 0 LITTLE [0x68, 0x69] = Inr s'"
    and c: "stored_usize s' 24 LITTLE = Inr 31"
    and b: "stored_bytes s' 0 16 = stored_bytes heap_string 0 16"
    by auto
  have "stored_bytes s' 0 3 = take 3 (stored_bytes s' 0 16)"
    using stored_bytes_take [of 3 16 s' 0] by simp
  also have "\<dots> = stored_bytes heap_string 0 3"
    unfolding b using stored_bytes_take [of 3 16 heap_string 0] by simp
  finally have "stored_bytes s' 0 3 = [0, 16, 0]" by (simp add: inline_heap_string)
  with c show "case std_string_set_value heap_string 0 LITTLE [0x68, 0x69] of
      Inl e \<Rightarrow> False
    | Inr s' \<Rightarrow> stored_usize s' 24 LITTLE = Inr 31 \<and> stored_bytes s' 0 3 = [0, 16, 0]"
    by (simp add: ok)
next
  let ?lay = "\<lparr>content_size = 16, length_offset = 16, capacity_offset = 24\<rparr>"
  have cfg: "std_string_fields (config heap_string) = Inr ?lay"
    by (simp add: config_heap_string fields_blank)
  have cap: "stored_usize heap_string (0 + capacity_offset ?lay) LITTLE = Inr 31"
    by (simp add: capacity_heap_string)
  have w: "scalar_compute_size USize (config heap_string) = Inr 8"
    by (simp only: config_heap_string USize_blank)
  have enc: "encode (replicate 20 0x61) = Inr (replicate 20 0x61)"
    using encode_replicate_ascii [of "0x61" 20] by simp
  from std_string_set_value_in_place_heap [OF cfg cap enc _ _ pointer_heap_string w]
  obtain s' where ok: "std_string_set_value heap_string 0 LITTLE (replicate 20 0x61) = Inr s'"
    and a: "allocations (calls s') = allocations (calls heap_string)"
    by auto
  from a show "case std_string_set_value heap_string 0 LITTLE (replicate 20 0x61) of
         Inl e \<Rightarrow> False
       | Inr s' \<Rightarrow> allocations (calls s') = []"
    by (simp add: ok calls_blank)
qed

section \<open>Reading a \<^verbatim>\<open>std_string\<close>\<close>

text \<open>
  C6. The claim is that \<^verbatim>\<open>get_value\<close> returns the empty string when the inline bytes
  and the bytes behind the heap pointer both fail to decode. On \<open>invalid_string\<close>
  the inline byte \<open>0xFF\<close> fails to decode, the read falls through to the heap
  pointer, the byte \<open>0xFF\<close> at address 255 fails to decode as well, and the handler
  raises \<^verbatim>\<open>NameError\<close> on the unbound name \<^verbatim>\<open>EMPTY_STRING\<close>: no string is returned.
\<close>

theorem std_string_get_value_NameError:
  "std_string_get_value invalid_string 0 LITTLE = Inl NameError"
proof -
  have cfg: "std_string_fields (config invalid_string)
      = Inr \<lparr>content_size = 16, length_offset = 16, capacity_offset = 24\<rparr>"
    by (simp add: config_invalid_string fields_blank)
  have w: "scalar_compute_size USize (config invalid_string) = Inr 8"
    by (simp only: config_invalid_string USize_blank)
  have mem: "memory invalid_string = (\<lambda>x. if x = 0 then 0xFF else if x = 16 then 1
                          else if x = 24 then 15 else if x = 255 then 0xFF else 0)"
    by (simp add: invalid_string_def)
  have big: "big_endian invalid_string = False" by (simp add: invalid_string_def blank_def)
  have c: "stored_usize invalid_string 24 LITTLE = Inr 15"
    by (simp add: stored_usize_eq [OF w] stored_bytes_def in_order_def upt_8 mem)
  have l: "stored_usize invalid_string 16 LITTLE = Inr 1"
    by (simp add: stored_usize_eq [OF w] stored_bytes_def in_order_def upt_8 mem)
  have p: "stored_usize invalid_string 0 LITTLE = Inr 255"
    by (simp add: stored_usize_eq [OF w] stored_bytes_def in_order_def upt_8 mem)
  define s1 where "s1 = invalid_string\<lparr>calls := calls invalid_string @ [ReadAt 24 8]\<rparr>"
  have r1: "read_usize invalid_string 24 LITTLE = Inr (15, s1)"
    using read_usize_of_stored [OF c w] by (simp add: s1_def)
  have w1: "scalar_compute_size USize (config s1) = Inr 8" using w by (simp add: s1_def)
  have l1: "stored_usize s1 16 LITTLE = Inr 1" using l by (simp add: s1_def)
  define s2 where "s2 = s1\<lparr>calls := calls s1 @ [ReadAt 16 8]\<rparr>"
  have r2: "read_usize s1 16 LITTLE = Inr (1, s2)"
    using read_usize_of_stored [OF l1 w1] by (simp add: s2_def)
  define s3 where "s3 = s2\<lparr>calls := calls s2 @ [ReadAt 0 1]\<rparr>"
  have m3: "memory s3 = memory invalid_string" by (simp add: s3_def s2_def s1_def)
  have r3: "read_at s2 0 1 = ([0xFF], s3)"
    by (simp add: read_at_def s3_def stored_bytes_def s2_def s1_def mem)
  have w3: "scalar_compute_size USize (config s3) = Inr 8" using w1 by (simp add: s3_def s2_def)
  have p3: "stored_usize s3 0 LITTLE = Inr 255" using p by (simp add: s3_def s2_def s1_def)
  define s4 where "s4 = s3\<lparr>calls := calls s3 @ [ReadAt 0 8]\<rparr>"
  have r4: "read_usize s3 0 LITTLE = Inr (255, s4)"
    using read_usize_of_stored [OF p3 w3] by (simp add: s4_def)
  have r5: "read_at s4 255 1 = ([0xFF], s4\<lparr>calls := calls s4 @ [ReadAt 255 1]\<rparr>)"
    by (simp add: read_at_def stored_bytes_def s4_def m3 mem)
  have d: "decode [0xFF] = Inl UnicodeDecodeError" by simp
  have heap: "get_value_heap s3 0 LITTLE 1 = Inl NameError"
    by (simp add: get_value_heap_def r4 r5 d)
  show ?thesis
    by (simp add: std_string_get_value_def cfg r1 r2 r3 d heap)
qed

section \<open>Length and capacity after a write\<close>

text \<open>
  C7 (as amended). Let \<^verbatim>\<open>set_value\<close> complete on a state and a string whose encoding
  has \<open>L\<close> bytes, and let \<open>c\<close> be the capacity field before the call. Provided the
  heap buffer that receives the bytes does not overlap the string object itself (the
  block at the address the next allocation returns, when a block is allocated; the
  block the heap pointer holds, when the string is written in place on the heap),
  and \<open>L + 1 \<le> 2 ^ 48\<close> when a block is allocated:
  \<^item> the length field holds \<open>L\<close> afterwards, and the capacity field holds a value
    \<open>c'\<close> that is not below \<open>L\<close>;
  \<^item> one byte past the capacity is reserved for the terminator. On the inline path
    (\<open>L < 16\<close>, and \<open>c < L\<close> or \<open>c < 16\<close>) \<open>c' + 1\<close> is at most the 16 bytes of the
    inline buffer, exactly 16 when the capacity is set anew (\<open>c < L\<close>) and
    \<open>c' = c\<close> otherwise, and the buffer holds the bytes followed by the
    terminator. On the heap path with a new block (\<open>c < L\<close>, \<open>16 \<le> L\<close>) the one
    block that is allocated has \<open>c' + 1\<close> bytes and holds the bytes followed by
    the terminator. On the heap path in place (\<open>L \<le> c\<close>, \<open>16 \<le> c\<close>) the
    capacity is unchanged and the buffer the pointer holds has the bytes followed by
    the terminator.

  On the two inline paths neither proviso applies.
\<close>

theorem std_string_set_value_length_capacity:
  assumes cfg: "std_string_fields (config s) = Inr content"
    and cap: "stored_usize s (address + capacity_offset content) order = Inr capacity"
    and enc: "encode v = Inr encoded"
    and ok: "std_string_set_value s address order v = Inr s'"
    and w: "scalar_compute_size USize (config s) = Inr w"
    and fresh: "capacity < int (length encoded) \<and> 16 \<le> int (length encoded) \<longrightarrow>
                  int (length encoded) + 1 \<le> 2 ^ 48
                  \<and> (next_block s + int (length encoded) + 1 \<le> address
                       \<or> address + capacity_offset content + w \<le> next_block s)"
    and owned: "int (length encoded) \<le> capacity \<and> 16 \<le> capacity \<longrightarrow>
                  (\<exists>pointer. stored_usize s address order = Inr pointer
                     \<and> (pointer + int (length encoded) + 1 \<le> address
                          \<or> address + capacity_offset content + w \<le> pointer))"
  shows "stored_usize s' (address + length_offset content) order = Inr (int (length encoded))
         \<and> (\<exists>capacity'. stored_usize s' (address + capacity_offset content) order = Inr capacity'
               \<and> int (length encoded) \<le> capacity'
               \<and> (int (length encoded) < 16 \<and> (capacity < int (length encoded) \<or> capacity < 16) \<longrightarrow>
                     capacity' = (if capacity < int (length encoded)
                                  then content_size content - 1 else capacity)
                     \<and> capacity' + 1 \<le> content_size content
                     \<and> stored_bytes s' address (int (length encoded) + 1) = encoded @ [0])
               \<and> (capacity < int (length encoded) \<and> 16 \<le> int (length encoded) \<longrightarrow>
                     allocations (calls s') = allocations (calls s) @ [capacity' + 1]
                     \<and> stored_bytes s' (next_block s) (int (length encoded) + 1) = encoded @ [0])
               \<and> (int (length encoded) \<le> capacity \<and> 16 \<le> capacity \<longrightarrow>
                     capacity' = capacity
                     \<and> (\<exists>pointer. stored_usize s address order = Inr pointer
                           \<and> stored_bytes s' pointer (int (length encoded) + 1) = encoded @ [0])))"
proof -
  let ?L = "int (length encoded)"
  from std_string_fields_InrD [OF cfg] have size: "content_size content = 16" by auto
  consider (inline) "?L < 16" "capacity < ?L \<or> capacity < 16"
    | (allocate) "capacity < ?L" "16 \<le> ?L"
    | (in_place) "?L \<le> capacity" "16 \<le> capacity"
    by linarith
  then show ?thesis
  proof cases
    case inline
    define c' where "c' = (if capacity < ?L then 15 else capacity)"
    from std_string_set_value_inline [OF cfg cap enc inline] ok
    have len: "stored_usize s' (address + length_offset content) order = Inr ?L"
      and cap': "stored_usize s' (address + capacity_offset content) order = Inr c'"
      and bytes: "stored_bytes s' address (?L + 1) = encoded @ [0]"
      by (auto simp: c'_def)
    have a: "?L \<le> c'" using inline by (auto simp: c'_def)
    have b: "c' = (if capacity < ?L then content_size content - 1 else capacity)"
      by (simp add: c'_def size)
    have c: "c' + 1 \<le> content_size content" using inline by (auto simp: c'_def size)
    have d: "\<not> (capacity < ?L \<and> 16 \<le> ?L)" using inline by linarith
    have e: "\<not> (?L \<le> capacity \<and> 16 \<le> capacity)" using inline by linarith
    from len cap' a b c bytes d e show ?thesis by blast
  next
    case allocate
    from fresh allocate have
      bound: "?L + 1 \<le> 2 ^ 48" and
      apart: "next_block s + ?L + 1 \<le> address \<or> address + capacity_offset content + w \<le> next_block s"
      by auto
    from std_string_set_value_heap_inv [OF cfg cap enc ok allocate w] obtain rounded where
      cp: "closest_power_of_two (?L + 1) = Inr rounded" and
      fit: "?L < 2 ^ nat (8 * w)" and
      room: "0 \<le> next_block s" "1 \<le> rounded" "next_block s + rounded \<le> 2 ^ nat (8 * w)"
      by blast
    have large: "16 \<le> length encoded" using allocate by simp
    from std_string_set_value_heap [OF cfg cap enc allocate(1) large cp w fit room apart] ok
    have len: "stored_usize s' (address + length_offset content) order = Inr ?L"
      and cap': "stored_usize s' (address + capacity_offset content) order = Inr (rounded - 1)"
      and bytes: "stored_bytes s' (next_block s) (?L + 1) = encoded @ [0]"
      and allocs: "allocations (calls s') = allocations (calls s) @ [rounded - 1 + 1]"
      by auto
    have a: "?L \<le> rounded - 1"
    proof -
      have "1 \<le> ?L + 1" by simp
      from closest_power_of_two_small [OF this bound] cp
      obtain k where "rounded = 2 ^ k" "?L + 1 \<le> 2 ^ k" by auto
      then show ?thesis by linarith
    qed
    have d: "\<not> (?L < 16 \<and> (capacity < ?L \<or> capacity < 16))" using allocate by linarith
    have e: "\<not> (?L \<le> capacity \<and> 16 \<le> capacity)" using allocate by linarith
    from len cap' a bytes allocs d e show ?thesis by blast
  next
    case in_place
    from owned in_place obtain pointer where
      ptr: "stored_usize s address order = Inr pointer" and
      apart: "pointer + ?L + 1 \<le> address \<or> address + capacity_offset content + w \<le> pointer"
      by auto
    from std_string_set_value_in_place_heap [OF cfg cap enc in_place ptr w apart] ok
    have len: "stored_usize s' (address + length_offset content) order = Inr ?L"
      and cap': "stored_usize s' (address + capacity_offset content) order = Inr capacity"
      and bytes: "stored_bytes s' pointer (?L + 1) = encoded @ [0]"
      by auto
    have d: "\<not> (?L < 16 \<and> (capacity < ?L \<or> capacity < 16))" using in_place by linarith
    have e: "\<not> (capacity < ?L \<and> 16 \<le> ?L)" using in_place by linarith
    from len cap' in_place(1) ptr bytes d e show ?thesis by blast
  qed
qed

text \<open>
  The three paths at concrete inputs. On \<open>blank\<close> the two-byte string \<open>hi\<close> gets
  length 2 and capacity 15 in the inline buffer; a twenty-byte string gets length
  20 and capacity 31 in a block of 32 bytes. On \<open>heap_string\<close> the string \<open>hi\<close>
  gets length 2 and keeps the capacity 31.
\<close>

theorem std_string_set_value_length_capacity_witness:
  "(case std_string_set_value blank 0 LITTLE [0x68, 0x69] of
      Inl e \<Rightarrow> False
    | Inr s' \<Rightarrow> stored_usize s' 16 LITTLE = Inr 2 \<and> stored_usize s' 24 LITTLE = Inr 15
               \<and> stored_bytes s' 0 3 = [0x68, 0x69, 0])
   \<and> (case std_string_set_value blank 0 LITTLE (replicate 20 0x61) of
         Inl e \<Rightarrow> False
       | Inr s' \<Rightarrow> stored_usize s' 16 LITTLE = Inr 20 \<and> stored_usize s' 24 LITTLE = Inr 31
                  \<and> allocations (calls s') = [32]
                  \<and> stored_bytes s' 4096 21 = replicate 20 0x61 @ [0])
   \<and> (case std_string_set_value heap_string 0 LITTLE [0x68, 0x69] of
         Inl e \<Rightarrow> False
       | Inr s' \<Rightarrow> stored_usize s' 16 LITTLE = Inr 2 \<and> stored_usize s' 24 LITTLE = Inr 31
                  \<and> stored_bytes s' 4096 3 = [0x68, 0x69, 0])"
proof (intro conjI)
  let ?lay = "\<lparr>content_size = 16, length_offset = 16, capacity_offset = 24\<rparr>"
  have cap: "stored_usize blank (0 + capacity_offset ?lay) LITTLE = Inr 0"
    by (simp add: stored_usize_blank)
  from std_string_set_value_inline_completes [OF fields_blank cap encode_hi]
  obtain s' where ok: "std_string_set_value blank 0 LITTLE [0x68, 0x69] = Inr s'" by auto
  from std_string_set_value_length_capacity [OF fields_blank cap encode_hi ok USize_blank]
  have "stored_usize s' 16 LITTLE = Inr 2 \<and> stored_usize s' 24 LITTLE = Inr 15
        \<and> stored_bytes s' 0 3 = [0x68, 0x69, 0]"
    by auto
  then show "case std_string_set_value blank 0 LITTLE [0x68, 0x69] of
      Inl e \<Rightarrow> False
    | Inr s' \<Rightarrow> stored_usize s' 16 LITTLE = Inr 2 \<and> stored_usize s' 24 LITTLE = Inr 15
               \<and> stored_bytes s' 0 3 = [0x68, 0x69, 0]"
    by (simp add: ok)
next
  let ?lay = "\<lparr>content_size = 16, length_offset = 16, capacity_offset = 24\<rparr>"
  have cap: "stored_usize blank (0 + capacity_offset ?lay) LITTLE = Inr 0"
    by (simp add: stored_usize_blank)
  have enc: "encode (replicate 20 0x61) = Inr (replicate 20 0x61)"
    using encode_replicate_ascii [of "0x61" 20] by simp
  from std_string_set_value_heap [OF fields_blank cap enc _ _ _ USize_blank, of 32]
  obtain s' where ok: "std_string_set_value blank 0 LITTLE (replicate 20 0x61) = Inr s'"
    and al: "allocations (calls s') = [32]"
    by (auto simp: closest_power_of_two_21 next_block_blank calls_blank)
  from std_string_set_value_length_capacity [OF fields_blank cap enc ok USize_blank]
  have "stored_usize s' 16 LITTLE = Inr 20 \<and> stored_usize s' 24 LITTLE = Inr 31
        \<and> stored_bytes s' 4096 21 = replicate 20 0x61 @ [0]"
    by (auto simp: next_block_blank calls_blank al)
  with al show "case std_string_set_value blank 0 LITTLE (replicate 20 0x61) of
         Inl e \<Rightarrow> False
       | Inr s' \<Rightarrow> stored_usize s' 16 LITTLE = Inr 20 \<and> stored_usize s' 24 LITTLE = Inr 31
                  \<and> allocations (calls s') = [32]
                  \<and> stored_bytes s' 4096 21 = replicate 20 0x61 @ [0]"
    by (simp add: ok)
next
  let ?lay = "\<lparr>content_size = 16, length_offset = 16, capacity_offset = 24\<rparr>"
  have cfg: "std_string_fields (config heap_string) = Inr ?lay"
    by (simp add: config_heap_string fields_blank)
  have cap: "stored_usize heap_string (0 + capacity_offset ?lay) LITTLE = Inr 31"
    by (simp add: capacity_heap_string)
  have w: "scalar_compute_size USize (config heap_string) = Inr 8"
    by (simp only: config_heap_string USize_blank)
  from std_string_set_value_in_place_completes [OF cfg cap encode_hi]
  obtain s' where ok: "std_string_set_value heap_string 0 LITTLE [0x68, 0x69] = Inr s'" by auto
  from std_string_set_value_length_capacity [OF cfg cap encode_hi ok w]
  have "stored_usize s' 16 LITTLE = Inr 2 \<and> stored_usize s' 24 LITTLE = Inr 31
        \<and> stored_bytes s' 4096 3 = [0x68, 0x69, 0]"
    by (auto simp: pointer_heap_string)
  then show "case std_string_set_value heap_string 0 LITTLE [0x68, 0x69] of
         Inl e \<Rightarrow> False
       | Inr s' \<Rightarrow> stored_usize s' 16 LITTLE = Inr 2 \<and> stored_usize s' 24 LITTLE = Inr 31
                  \<and> stored_bytes s' 4096 3 = [0x68, 0x69, 0]"
    by (simp add: ok)
qed

text \<open>
  C7 as stated fails on \<open>self_pointing\<close>: the two bytes \<open>hi\<close> and the terminator are
  written through the heap pointer over the length field, which holds 26984
  afterwards and not 2, the length of the encoding.
\<close>

theorem std_string_set_value_length_capacity_counterexample:
  "encode [0x68, 0x69] = Inr [0x68, 0x69]
   \<and> (case std_string_set_value self_pointing 0 LITTLE [0x68, 0x69] of
         Inl e \<Rightarrow> False
       | Inr s' \<Rightarrow> stored_usize s' 16 LITTLE = Inr 26984)"
  by (intro conjI encode_hi std_string_length_overwritten)

section \<open>Writing an \<^verbatim>\<open>old_std_string\<close>\<close>







lemma stored_isize_calls [simp]: "stored_isize (s\<lparr>calls := c\<rparr>) a order = stored_isize s a order"
  by (simp add: stored_isize_def read_isize_def read_at_def in_order_def Let_def split: sum.splits)












end
